theory Spec2Isabelle
  imports Main "HOL-Library.Multiset"
begin

section \<open>The task viewer of concurrently-ui (src/index.ts)\<close>

text \<open>
  The program is one class, \<open>LogViewer\<close>, whose constructor builds the task registry,
  the two widgets and then spawns one pseudo-terminal per task. Everything afterwards
  happens in callbacks run by the single-threaded event loop, one at a time. The model
  is a record of the object's fields, one function per method or callback (state in,
  state out), and a dispatcher that runs a list of events in the order the loop
  delivers them.

  JavaScript strings are modelled as \<open>string\<close>; the only string operations of the
  program are concatenation and \<open>join\<close>, so the glyphs outside ASCII are written as
  their UTF-8 bytes.
\<close>

subsection \<open>Strings\<close>

definition nl :: string where
  "nl = [CHR 0x0A]"

definition cr :: string where
  "cr = [CHR 0x0D]"

text \<open>\<open>Array.prototype.join\<close>: the separator goes between consecutive elements only.\<close>

fun join :: "string \<Rightarrow> string list \<Rightarrow> string" where
  "join sep [] = []"
| "join sep [x] = x"
| "join sep (x # y # ys) = x @ sep @ join sep (y # ys)"

text \<open>The decimal rendering of a number inside a template literal.\<close>

definition digit :: "nat \<Rightarrow> char" where
  "digit n = ''0123456789'' ! n"

fun string_of_nat :: "nat \<Rightarrow> string" where
  "string_of_nat n =
     (if n < 10 then [digit n] else string_of_nat (n div 10) @ [digit (n mod 10)])"

declare string_of_nat.simps [simp del]

definition string_of_int :: "int \<Rightarrow> string" where
  "string_of_int c =
     (if c < 0 then ''-'' @ string_of_nat (nat (- c)) else string_of_nat (nat c))"

text \<open>
  picocolors: a colour function wraps its argument in an ANSI open and close code when
  colour is supported and returns it unchanged otherwise.
\<close>

definition pc_yellow :: "bool \<Rightarrow> string \<Rightarrow> string" where
  "pc_yellow colour str = (if colour then CHR 0x1B # ''[33m'' @ str @ CHR 0x1B # ''[39m'' else str)"

definition pc_green :: "bool \<Rightarrow> string \<Rightarrow> string" where
  "pc_green colour str = (if colour then CHR 0x1B # ''[32m'' @ str @ CHR 0x1B # ''[39m'' else str)"

definition glyph_running :: string where
  "glyph_running = [CHR 0xE2, CHR 0x9F, CHR 0xB3]"

definition glyph_check :: string where
  "glyph_check = [CHR 0xE2, CHR 0x9C, CHR 0x93]"

definition glyph_cross :: string where
  "glyph_cross = [CHR 0xE2, CHR 0x9C, CHR 0x97]"

definition spinnerFrames :: "string list" where
  "spinnerFrames =
     [[CHR 0xE2, CHR 0xA0, CHR 0x8B], [CHR 0xE2, CHR 0xA0, CHR 0x99],
      [CHR 0xE2, CHR 0xA0, CHR 0xB9], [CHR 0xE2, CHR 0xA0, CHR 0xB8],
      [CHR 0xE2, CHR 0xA0, CHR 0xBC], [CHR 0xE2, CHR 0xA0, CHR 0xB4],
      [CHR 0xE2, CHR 0xA0, CHR 0xA6], [CHR 0xE2, CHR 0xA0, CHR 0xA7],
      [CHR 0xE2, CHR 0xA0, CHR 0x87], [CHR 0xE2, CHR 0xA0, CHR 0x8F]]"

subsection \<open>Data model\<close>

text \<open>
  \<open>interface Task\<close>. The field \<open>id\<close> is named \<open>task_id\<close> here. The optional fields
  \<open>process\<close> and \<open>exitCode\<close> are options; a pseudo-terminal handle is identified by a
  number.
\<close>

type_synonym IPty = nat

record Task =
  task_id :: string
  title :: string
  command :: string
  isRunning :: bool
  logs :: "string list"
  process :: "IPty option"
  exitCode :: "int option"

record LogViewerOptions =
  commands :: "string list"
  killOthers :: bool
  killOthersOnFail :: bool

text \<open>
  What the program does to the outside world, in the order it does it: the command line
  written to a task's shell, \<open>task.process.kill()\<close> on the task with the given index,
  \<open>clearInterval\<close> on a timer, and \<open>process.exit\<close>.
\<close>

datatype effect =
    PtyWrite nat string
  | Kill nat
  | ClearInterval nat
  | ProcessExit int

text \<open>
  The fields of \<open>class LogViewer\<close>. Of the two widgets the model keeps what the program
  writes to them: the content of each sidebar item and the content of the log box.
  \<open>spinnerIndex\<close> holds the closure variable of that name of each task's timer callback,
  by task index; a timer is identified by the index of its task, and \<open>activeTimers\<close> are
  the timers the runtime still has scheduled. \<open>colour\<close> is whether picocolors emits
  colour codes. \<open>trace\<close> collects the effects and \<open>exitStatus\<close> is set once the
  program has called \<open>process.exit\<close>.
\<close>

record LogViewer =
  tasks :: "Task list"
  currentTaskIndex :: int
  options :: LogViewerOptions
  spinnerIntervals :: "nat list"
  mouseEnabled :: bool
  sidebarItems :: "string list"
  logBoxContent :: string
  spinnerIndex :: "nat \<Rightarrow> nat"
  activeTimers :: "nat list"
  colour :: bool
  trace :: "effect list"
  exitStatus :: "int option"

text \<open>
  An exception leaves the object as it was at the throw, so a thrown error carries that
  state. \<open>TypeError\<close> is the read of a property of \<open>undefined\<close>; \<open>SpawnError\<close> is
  whatever \<open>pty.spawn\<close> throws.
\<close>

datatype error = TypeError | SpawnError

type_synonym result = "(error \<times> LogViewer) + LogViewer"

definition and_then :: "result \<Rightarrow> (LogViewer \<Rightarrow> result) \<Rightarrow> result" where
  "and_then r f = (case r of Inl x \<Rightarrow> Inl x | Inr s \<Rightarrow> f s)"

subsection \<open>Methods\<close>

definition getTaskLabel :: "bool \<Rightarrow> Task \<Rightarrow> string" where
  "getTaskLabel col task =
     (if isRunning task then glyph_running @ '' '' @ title task
      else if exitCode task = Some 0 then pc_green col glyph_check @ '' '' @ title task
      else glyph_cross @ '' '' @ title task)"

text \<open>
  \<open>this.tasks[this.currentTaskIndex]\<close> is \<open>undefined\<close> outside the array, and reading
  \<open>.logs\<close> of it throws.
\<close>

definition updateLogBox :: "LogViewer \<Rightarrow> result" where
  "updateLogBox s =
     (let i = currentTaskIndex s in
      if 0 \<le> i \<and> i < int (length (tasks s))
      then Inr (s\<lparr>logBoxContent := join nl (logs (tasks s ! nat i))\<rparr>)
      else Inl (TypeError, s))"

definition handleTaskSelect :: "LogViewer \<Rightarrow> int \<Rightarrow> result" where
  "handleTaskSelect s index = updateLogBox (s\<lparr>currentTaskIndex := index\<rparr>)"

text \<open>
  \<open>killAllTasks\<close>: \<open>forEach\<close> over the registry in order, a kill for each task that is
  running and has a process.
\<close>

definition killAllTasks :: "LogViewer \<Rightarrow> LogViewer" where
  "killAllTasks s =
     s\<lparr>trace := trace s @
          map Kill [i \<leftarrow> [0..<length (tasks s)].
                      isRunning (tasks s ! i) \<and> process (tasks s ! i) \<noteq> None]\<rparr>"

definition cleanup :: "LogViewer \<Rightarrow> LogViewer" where
  "cleanup s =
     killAllTasks
       (s\<lparr>activeTimers := [t \<leftarrow> activeTimers s. t \<notin> set (spinnerIntervals s)],
          trace := trace s @ map ClearInterval (spinnerIntervals s)\<rparr>)"

text \<open>The handler of the keys \<open>q\<close> and \<open>C-c\<close>.\<close>

definition quit :: "LogViewer \<Rightarrow> LogViewer" where
  "quit s = (let s' = cleanup s in s'\<lparr>trace := trace s' @ [ProcessExit 0], exitStatus := Some 0\<rparr>)"

subsection \<open>The callbacks registered by \<open>startTasks\<close>\<close>

text \<open>
  Each callback is a closure over one task of the registry and its index, so it only
  ever runs with an index below the length of the registry; \<open>task\<close> in the source is
  \<open>tasks s ! index\<close> here.
\<close>

definition exitMarker :: "bool \<Rightarrow> int \<Rightarrow> string" where
  "exitMarker col code = nl @ pc_yellow col (''Process exited with code '' @ string_of_int code)"

definition pushLog :: "nat \<Rightarrow> string \<Rightarrow> LogViewer \<Rightarrow> LogViewer" where
  "pushLog index str s =
     s\<lparr>tasks := (tasks s)[index := (tasks s ! index)\<lparr>logs := logs (tasks s ! index) @ [str]\<rparr>]\<rparr>"

definition onData :: "nat \<Rightarrow> string \<Rightarrow> LogViewer \<Rightarrow> result" where
  "onData index data s =
     (let s1 = pushLog index data s in
      if currentTaskIndex s1 = int index then updateLogBox s1 else Inr s1)"

text \<open>\<open>this.sidebar.getItem(index)\<close> is \<open>undefined\<close> when the list has no such item.\<close>

definition setItemContent :: "nat \<Rightarrow> string \<Rightarrow> LogViewer \<Rightarrow> result" where
  "setItemContent index str s =
     (if index < length (sidebarItems s)
      then Inr (s\<lparr>sidebarItems := (sidebarItems s)[index := str]\<rparr>)
      else Inl (TypeError, s))"

definition killPolicy :: "LogViewerOptions \<Rightarrow> int \<Rightarrow> bool" where
  "killPolicy opts code \<longleftrightarrow>
     (killOthers opts \<and> code = 0) \<or> (killOthersOnFail opts \<and> code \<noteq> 0)"

definition onExit :: "nat \<Rightarrow> int \<Rightarrow> LogViewer \<Rightarrow> result" where
  "onExit index code s =
     (let s1 = s\<lparr>tasks := (tasks s)[index := (tasks s ! index)\<lparr>isRunning := False, exitCode := Some code\<rparr>]\<rparr>;
          s2 = pushLog index (exitMarker (colour s1) code) s1
      in and_then (if currentTaskIndex s2 = int index then updateLogBox s2 else Inr s2)
           (\<lambda>s3. and_then (setItemContent index (getTaskLabel (colour s3) (tasks s3 ! index)) s3)
              (\<lambda>s4. if killPolicy (options s4) code then Inr (killAllTasks s4) else Inr s4)))"

text \<open>
  The callback of a task's 80 ms timer. Reading \<open>spinnerFrames[spinnerIndex]\<close> outside the
  array gives \<open>undefined\<close>, which a template literal prints as that word.
\<close>

definition frameAt :: "nat \<Rightarrow> string" where
  "frameAt k = (if k < length spinnerFrames then spinnerFrames ! k else ''undefined'')"

definition onTick :: "nat \<Rightarrow> LogViewer \<Rightarrow> result" where
  "onTick index s =
     (if isRunning (tasks s ! index)
      then and_then
             (setItemContent index
                (frameAt (spinnerIndex s index) @ '' '' @ title (tasks s ! index)) s)
             (\<lambda>s1. Inr (s1\<lparr>spinnerIndex :=
                       (spinnerIndex s1)(index := (spinnerIndex s1 index + 1) mod length spinnerFrames)\<rparr>))
      else Inr s)"

subsection \<open>Construction\<close>

text \<open>
  \<open>pty.spawn\<close> belongs to the pseudo-terminal library. Its outcome for the task with a
  given index is a parameter: a handle, or \<open>None\<close> when the call throws. The program
  calls it with no handler around it, so a throw leaves \<open>startTasks\<close> and the constructor.
\<close>

definition startTask :: "(nat \<Rightarrow> IPty option) \<Rightarrow> nat \<Rightarrow> LogViewer \<Rightarrow> result" where
  "startTask spawn index s =
     (let task = tasks s ! index in
      if isRunning task then
        (case spawn index of
           None \<Rightarrow> Inl (SpawnError, s)
         | Some p \<Rightarrow>
             Inr (s\<lparr>tasks := (tasks s)[index := task\<lparr>process := Some p\<rparr>],
                    trace := trace s @ [PtyWrite index (command task @ cr)],
                    spinnerIndex := (spinnerIndex s)(index := 0),
                    activeTimers := activeTimers s @ [index],
                    spinnerIntervals := spinnerIntervals s @ [index]\<rparr>))
      else Inr s)"

fun forEachIndex :: "(nat \<Rightarrow> LogViewer \<Rightarrow> result) \<Rightarrow> nat list \<Rightarrow> LogViewer \<Rightarrow> result" where
  "forEachIndex f [] s = Inr s"
| "forEachIndex f (i # is) s = and_then (f i s) (forEachIndex f is)"

definition startTasks :: "(nat \<Rightarrow> IPty option) \<Rightarrow> LogViewer \<Rightarrow> result" where
  "startTasks spawn s = forEachIndex (startTask spawn) [0..<length (tasks s)] s"

definition newTask :: "nat \<Rightarrow> string \<Rightarrow> Task" where
  "newTask index cmd =
     \<lparr>task_id = ''task-'' @ string_of_nat index, title = cmd, command = cmd,
      isRunning = True, logs = [], process = None, exitCode = None\<rparr>"

text \<open>The object after the field initialisers and the assignments of the constructor.\<close>

definition fields :: "bool \<Rightarrow> LogViewerOptions \<Rightarrow> LogViewer" where
  "fields col opts =
     \<lparr>tasks = map (\<lambda>(index, cmd). newTask index cmd) (enumerate 0 (commands opts)),
      currentTaskIndex = 0, options = opts, spinnerIntervals = [], mouseEnabled = True,
      sidebarItems = [], logBoxContent = [], spinnerIndex = (\<lambda>_. 0), activeTimers = [],
      colour = col, trace = [], exitStatus = None\<rparr>"

definition initializeUI :: "LogViewer \<Rightarrow> result" where
  "initializeUI s =
     updateLogBox (s\<lparr>sidebarItems := map (getTaskLabel (colour s)) (tasks s)\<rparr>)"

definition newLogViewer :: "(nat \<Rightarrow> IPty option) \<Rightarrow> bool \<Rightarrow> LogViewerOptions \<Rightarrow> result" where
  "newLogViewer spawn col opts = and_then (initializeUI (fields col opts)) (startTasks spawn)"

text \<open>
  The top level: with no command the program reports an error and exits with status 1
  before any widget is built (\<open>Inl\<close>); otherwise it constructs the viewer.
\<close>

definition main :: "(nat \<Rightarrow> IPty option) \<Rightarrow> bool \<Rightarrow> string list \<Rightarrow> bool \<Rightarrow> bool \<Rightarrow> int + result" where
  "main spawn col args optKillOthers optKillOthersOnFail =
     (if length args = 0 then Inl 1
      else Inr (newLogViewer spawn col
             \<lparr>commands = args, killOthers = optKillOthers, killOthersOnFail = optKillOthersOnFail\<rparr>))"

subsection \<open>The event loop\<close>

text \<open>
  One constructor per callback the program registers. \<open>Select\<close> is the sidebar's
  \<open>select\<close> event; \<open>KeyUp\<close> and \<open>KeyDown\<close> carry the value of \<open>sidebar.selected\<close> that the
  handler reads after moving the list; the wheel handlers only scroll the widget.
  A data or exit event comes from a task's handle and a tick from a scheduled timer, so
  these are delivered only to tasks that have them.
\<close>

datatype event =
    Data nat string
  | Exit nat int
  | Tick nat
  | Select int
  | KeyUp int
  | KeyDown int
  | Resize
  | ToggleMouse
  | Wheel
  | Quit

definition hasHandle :: "LogViewer \<Rightarrow> nat \<Rightarrow> bool" where
  "hasHandle s index \<longleftrightarrow> index < length (tasks s) \<and> process (tasks s ! index) \<noteq> None"

fun handle :: "event \<Rightarrow> LogViewer \<Rightarrow> result" where
  "handle (Data index d) s = (if hasHandle s index then onData index d s else Inr s)"
| "handle (Exit index code) s = (if hasHandle s index then onExit index code s else Inr s)"
| "handle (Tick index) s =
     (if index < length (tasks s) \<and> index \<in> set (activeTimers s) then onTick index s else Inr s)"
| "handle (Select index) s = handleTaskSelect s index"
| "handle (KeyUp selected) s = handleTaskSelect s selected"
| "handle (KeyDown selected) s = handleTaskSelect s selected"
| "handle Resize s = updateLogBox s"
| "handle ToggleMouse s = Inr (s\<lparr>mouseEnabled := \<not> mouseEnabled s\<rparr>)"
| "handle Wheel s = Inr s"
| "handle Quit s = Inr (quit s)"

text \<open>Once the program has called \<open>process.exit\<close> no callback runs any more.\<close>

definition dispatch :: "event \<Rightarrow> LogViewer \<Rightarrow> result" where
  "dispatch e s = (if exitStatus s = None then handle e s else Inr s)"

fun run :: "event list \<Rightarrow> LogViewer \<Rightarrow> result" where
  "run [] s = Inr s"
| "run (e # es) s = and_then (dispatch e s) (run es)"

subsection \<open>Derived notions used in the statements\<close>

text \<open>The object after a call, whether the call returned or threw.\<close>

definition final :: "result \<Rightarrow> LogViewer" where
  "final r = (case r of Inl (e, s) \<Rightarrow> s | Inr s \<Rightarrow> s)"

text \<open>
  What holds of the object whenever the event loop is idle after a successful
  construction: the sidebar has one item per task, the selection points at a task, the
  log box shows the joined log of the selected task, every task has its process handle,
  and the scheduled timers are among those recorded in \<open>spinnerIntervals\<close>. The
  constructor establishes it when no spawn throws (\<open>newLogViewer_ok\<close>) and every event
  whose selection points at a task keeps it (\<open>run_wf\<close>).
\<close>

definition wf :: "LogViewer \<Rightarrow> bool" where
  "wf s \<longleftrightarrow>
     length (sidebarItems s) = length (tasks s) \<and>
     0 \<le> currentTaskIndex s \<and> currentTaskIndex s < int (length (tasks s)) \<and>
     logBoxContent s = join nl (logs (tasks s ! nat (currentTaskIndex s))) \<and>
     list_all (\<lambda>t. process t \<noteq> None) (tasks s) \<and>
     list_all (\<lambda>t. t \<in> set (spinnerIntervals s)) (activeTimers s)"

text \<open>An event whose selection index, if it has one, points at one of \<open>n\<close> tasks.\<close>

fun selectable :: "nat \<Rightarrow> event \<Rightarrow> bool" where
  "selectable n (Select k) = (0 \<le> k \<and> k < int n)"
| "selectable n (KeyUp k) = (0 \<le> k \<and> k < int n)"
| "selectable n (KeyDown k) = (0 \<le> k \<and> k < int n)"
| "selectable n e = True"

text \<open>The entries that the events of a list add to the log of task \<open>i\<close>, in order.\<close>

fun delivered :: "bool \<Rightarrow> nat \<Rightarrow> event list \<Rightarrow> string list" where
  "delivered col i [] = []"
| "delivered col i (Data j d # es) = (if j = i then d # delivered col i es else delivered col i es)"
| "delivered col i (Exit j c # es) =
     (if j = i then exitMarker col c # delivered col i es else delivered col i es)"
| "delivered col i (e # es) = delivered col i es"

text \<open>The indices of the tasks that are running, in registry order.\<close>

definition running :: "LogViewer \<Rightarrow> nat list" where
  "running s = [j \<leftarrow> [0..<length (tasks s)]. isRunning (tasks s ! j)]"

definition kills :: "LogViewer \<Rightarrow> nat list" where
  "kills s = concat (map (\<lambda>e. case e of Kill j \<Rightarrow> [j] | _ \<Rightarrow> []) (trace s))"

text \<open>The record of a task after its exit callback, and the object after that callback
  up to the kill policy.\<close>

definition exitTask :: "bool \<Rightarrow> int \<Rightarrow> Task \<Rightarrow> Task" where
  "exitTask col c t = t\<lparr>isRunning := False, exitCode := Some c, logs := logs t @ [exitMarker col c]\<rparr>"

definition exited :: "nat \<Rightarrow> int \<Rightarrow> LogViewer \<Rightarrow> LogViewer" where
  "exited i c s =
     s\<lparr>tasks := (tasks s)[i := exitTask (colour s) c (tasks s ! i)],
       logBoxContent := join nl (logs ((tasks s)[i := exitTask (colour s) c (tasks s ! i)] ! nat (currentTaskIndex s))),
       sidebarItems := (sidebarItems s)[i := getTaskLabel (colour s) (exitTask (colour s) c (tasks s ! i))]\<rparr>"

text \<open>The events of task \<open>i\<close>'s own process handle.\<close>

fun touches :: "nat \<Rightarrow> event \<Rightarrow> bool" where
  "touches i (Data j d) = (j = i)"
| "touches i (Exit j c) = (j = i)"
| "touches i e = False"

text \<open>
  An event that is neither the quit key nor an exit event that calls for a kill: one with
  code 0 while \<open>killOthers\<close> is set, or with another code while \<open>killOthersOnFail\<close> is set.
\<close>

fun quiet :: "LogViewerOptions \<Rightarrow> event \<Rightarrow> bool" where
  "quiet opts (Exit i c) =
     (\<not> ((killOthers opts \<and> c = 0) \<or> (killOthersOnFail opts \<and> c \<noteq> 0)))"
| "quiet opts Quit = False"
| "quiet opts e = True"


text \<open>A list of (task index, exit code) pairs as exit events, and the object after the
  exit callback for one such pair.\<close>

definition exits :: "(nat \<times> int) list \<Rightarrow> event list" where
  "exits xs = map (\<lambda>(i, c). Exit i c) xs"

definition exitedBy :: "nat \<times> int \<Rightarrow> LogViewer \<Rightarrow> LogViewer" where
  "exitedBy x s = exited (fst x) (snd x) s"

text \<open>Sample inputs: a spawn that always succeeds, one that fails for one task, three commands.\<close>

definition spawn_ok :: "nat \<Rightarrow> IPty option" where
  "spawn_ok index = Some index"

definition spawn_fails_at :: "nat \<Rightarrow> nat \<Rightarrow> IPty option" where
  "spawn_fails_at k index = (if index = k then None else Some index)"

definition example_options :: LogViewerOptions where
  "example_options =
     \<lparr>commands = [''a'', ''b'', ''c''], killOthers = True, killOthersOnFail = False\<rparr>"

definition example_viewer :: LogViewer where
  "example_viewer = final (newLogViewer spawn_ok True example_options)"

definition example_exited :: LogViewer where
  "example_exited = final (run [Exit 1 0] example_viewer)"

text \<open>The same three commands under \<open>killOthersOnFail\<close> alone.\<close>

definition example_options_on_fail :: LogViewerOptions where
  "example_options_on_fail =
     \<lparr>commands = [''a'', ''b'', ''c''], killOthers = False, killOthersOnFail = True\<rparr>"

definition example_viewer_on_fail :: LogViewer where
  "example_viewer_on_fail = final (newLogViewer spawn_ok True example_options_on_fail)"

section \<open>Basic facts\<close>

subsection \<open>Results and the invariant\<close>

lemma final_simps [simp]: "final (Inr s) = s" "final (Inl (e, s)) = s"
  by (simp_all add: final_def)

lemma and_then_simps [simp]: "and_then (Inr s) f = f s" "and_then (Inl x) f = Inl x"
  by (simp_all add: and_then_def)

lemma updateLogBox_wf: "wf s \<Longrightarrow> updateLogBox s = Inr s"
  by (simp add: updateLogBox_def wf_def)

lemma handleTaskSelect_wf:
  "wf s \<Longrightarrow> 0 \<le> k \<Longrightarrow> k < int (length (tasks s)) \<Longrightarrow>
   \<exists>s'. handleTaskSelect s k = Inr s' \<and> wf s' \<and> tasks s' = tasks s \<and> trace s' = trace s
     \<and> exitStatus s' = exitStatus s \<and> colour s' = colour s \<and> options s' = options s
     \<and> spinnerIndex s' = spinnerIndex s"
  by (simp add: handleTaskSelect_def updateLogBox_def wf_def)

lemma onData_wf:
  "wf s \<Longrightarrow> i < length (tasks s) \<Longrightarrow>
   \<exists>s'. onData i d s = Inr s' \<and> wf s' \<and> length (tasks s') = length (tasks s) \<and> trace s' = trace s
     \<and> exitStatus s' = exitStatus s \<and> colour s' = colour s \<and> options s' = options s
     \<and> spinnerIndex s' = spinnerIndex s
     \<and> tasks s' = (tasks s)[i := (tasks s ! i)\<lparr>logs := logs (tasks s ! i) @ [d]\<rparr>]"
  by (auto simp: onData_def pushLog_def updateLogBox_def wf_def Let_def list_all_length nth_list_update)

lemma onExit_wf:
  assumes "wf s" "i < length (tasks s)"
  shows "onExit i c s = Inr (if killPolicy (options s) c then killAllTasks (exited i c s) else exited i c s)"
  using assms
  by (auto simp: onExit_def pushLog_def updateLogBox_def setItemContent_def wf_def Let_def exited_def exitTask_def killAllTasks_def nat_eq_iff)

lemma wf_exited: "wf s \<Longrightarrow> i < length (tasks s) \<Longrightarrow> wf (exited i c s)"
  by (auto simp: wf_def exited_def exitTask_def list_all_length nth_list_update)

lemma wf_killAllTasks: "wf (killAllTasks s) = wf s"
  by (simp add: wf_def killAllTasks_def)

lemma onTick_wf:
  assumes "wf s" "i < length (tasks s)"
  shows "\<exists>s'. onTick i s = Inr s' \<and> wf s' \<and> tasks s' = tasks s \<and> trace s' = trace s"
  using assms
  by (auto simp: onTick_def setItemContent_def wf_def)

lemma wf_quit: "wf s \<Longrightarrow> wf (quit s)"
  by (auto simp: wf_def quit_def cleanup_def killAllTasks_def Let_def list_all_iff)

lemma handle_wf:
  assumes "wf s" "selectable (length (tasks s)) e"
  shows "\<exists>s'. handle e s = Inr s' \<and> wf s' \<and> length (tasks s') = length (tasks s)"
proof (cases e)
  case (Data i d)
  then show ?thesis using assms onData_wf[of s i d] by (auto simp: hasHandle_def)
next
  case (Exit i c)
  then show ?thesis using assms onExit_wf[of s i c] wf_exited[of s i c]
    by (auto simp: hasHandle_def wf_killAllTasks) (auto simp: exited_def killAllTasks_def)
next
  case (Tick i)
  then show ?thesis using assms onTick_wf[of s i] by auto
next
  case (Select k)
  then show ?thesis using assms handleTaskSelect_wf[of s k] by auto
next
  case (KeyUp k)
  then show ?thesis using assms handleTaskSelect_wf[of s k] by auto
next
  case (KeyDown k)
  then show ?thesis using assms handleTaskSelect_wf[of s k] by auto
next
  case Resize
  then show ?thesis using assms by (simp add: updateLogBox_wf)
next
  case ToggleMouse
  then show ?thesis using assms by (simp add: wf_def)
next
  case Wheel
  then show ?thesis using assms by simp
next
  case Quit
  then show ?thesis using assms wf_quit[of s] by (simp add: quit_def cleanup_def killAllTasks_def Let_def)
qed

lemma dispatch_wf:
  assumes "wf s" "selectable (length (tasks s)) e"
  shows "\<exists>s'. dispatch e s = Inr s' \<and> wf s' \<and> length (tasks s') = length (tasks s)"
  using handle_wf[OF assms] assms(1) by (simp add: dispatch_def)

lemma run_wf:
  "wf s \<Longrightarrow> list_all (selectable (length (tasks s))) evs \<Longrightarrow>
   \<exists>s'. run evs s = Inr s' \<and> wf s' \<and> length (tasks s') = length (tasks s)"
proof (induction evs arbitrary: s)
  case Nil
  then show ?case by simp
next
  case (Cons e evs)
  from Cons.prems obtain s1 where s1: "dispatch e s = Inr s1" "wf s1" "length (tasks s1) = length (tasks s)"
    using dispatch_wf[of s e] by auto
  with Cons.IH[of s1] Cons.prems show ?case by auto
qed

subsection \<open>What one event can change\<close>

lemmas handler_defs = dispatch_def hasHandle_def onData_def onExit_def onTick_def
  handleTaskSelect_def updateLogBox_def setItemContent_def pushLog_def killAllTasks_def
  quit_def cleanup_def and_then_def Let_def

lemma dispatch_length: "length (tasks (final (dispatch e s))) = length (tasks s)"
  by (cases e) (auto simp: handler_defs)

lemma dispatch_options: "options (final (dispatch e s)) = options s"
  by (cases e) (auto simp: handler_defs)

lemma dispatch_not_running:
  "j < length (tasks s) \<Longrightarrow> \<not> isRunning (tasks s ! j) \<Longrightarrow> \<not> isRunning (tasks (final (dispatch e s)) ! j)"
  by (cases e) (auto simp: handler_defs nth_list_update)

lemma dispatch_spinner:
  "i < length (tasks s) \<Longrightarrow> \<not> isRunning (tasks s ! i) \<Longrightarrow> spinnerIndex (final (dispatch e s)) i = spinnerIndex s i"
  by (cases e) (auto simp: handler_defs nth_list_update)

lemma dispatch_logs:
  "\<not> touches i e \<Longrightarrow> logs (tasks (final (dispatch e s)) ! i) = logs (tasks s ! i)"
  by (cases e) (auto simp: handler_defs nth_list_update)

lemma dispatch_kills_exited:
  "j < length (tasks s) \<Longrightarrow> \<not> isRunning (tasks s ! j) \<Longrightarrow>
   count_list (kills (final (dispatch e s))) j = count_list (kills s) j"
  by (cases e) (auto simp: handler_defs kills_def nth_list_update)

subsection \<open>What a run of events can change\<close>

lemma run_final_induct:
  assumes "P s" and step: "\<And>e s. P s \<Longrightarrow> P (final (dispatch e s))"
  shows "P (final (run evs s))"
  using assms(1)
proof (induction evs arbitrary: s)
  case Nil
  then show ?case by simp
next
  case (Cons e evs)
  show ?case
  proof (cases "dispatch e s")
    case (Inl x)
    with step[OF Cons.prems, of e] show ?thesis by (cases x) simp
  next
    case (Inr s1)
    with step[OF Cons.prems, of e] have "P s1" by simp
    from Cons.IH[OF this] Inr show ?thesis by simp
  qed
qed

lemma run_not_running:
  assumes "j < length (tasks s)" "\<not> isRunning (tasks s ! j)"
  shows "\<not> isRunning (tasks (final (run evs s)) ! j)"
proof -
  have "length (tasks (final (run evs s))) = length (tasks s) \<and> \<not> isRunning (tasks (final (run evs s)) ! j)"
    by (rule run_final_induct[where P = "\<lambda>s'. length (tasks s') = length (tasks s) \<and> \<not> isRunning (tasks s' ! j)"])
       (use assms in \<open>auto simp: dispatch_length dispatch_not_running\<close>)
  then show ?thesis by simp
qed

lemma run_spinner:
  assumes "i < length (tasks s)" "\<not> isRunning (tasks s ! i)"
  shows "spinnerIndex (final (run evs s)) i = spinnerIndex s i"
proof -
  let ?P = "\<lambda>s'. length (tasks s') = length (tasks s) \<and> \<not> isRunning (tasks s' ! i) \<and> spinnerIndex s' i = spinnerIndex s i"
  have "?P (final (run evs s))"
    by (rule run_final_induct[where P = ?P])
       (use assms in \<open>auto simp: dispatch_length dispatch_not_running dispatch_spinner\<close>)
  then show ?thesis by simp
qed

lemma run_kills_exited:
  assumes "j < length (tasks s)" "\<not> isRunning (tasks s ! j)"
  shows "count_list (kills (final (run evs s))) j = count_list (kills s) j"
proof -
  let ?P = "\<lambda>s'. length (tasks s') = length (tasks s) \<and> \<not> isRunning (tasks s' ! j) \<and> count_list (kills s') j = count_list (kills s) j"
  have "?P (final (run evs s))"
    by (rule run_final_induct[where P = ?P])
       (use assms in \<open>auto simp: dispatch_length dispatch_not_running dispatch_kills_exited\<close>)
  then show ?thesis by simp
qed

lemma run_logs_frame:
  assumes "list_all (\<lambda>e. \<not> touches i e) evs"
  shows "logs (tasks (final (run evs s)) ! i) = logs (tasks s ! i)"
  using assms
proof (induction evs arbitrary: s)
  case Nil
  then show ?case by simp
next
  case (Cons e evs)
  then have e: "\<not> touches i e" and es: "list_all (\<lambda>e. \<not> touches i e) evs" by simp_all
  show ?case
  proof (cases "dispatch e s")
    case (Inl x)
    with dispatch_logs[OF e, of s] show ?thesis by (cases x) simp
  next
    case (Inr s1)
    with dispatch_logs[OF e, of s] Cons.IH[OF es, of s1] show ?thesis by simp
  qed
qed

lemma dispatch_quiet: "quiet (options s) e \<Longrightarrow> kills (final (dispatch e s)) = kills s"
  by (cases e) (auto simp: handler_defs killPolicy_def kills_def)

lemma run_quiet:
  "list_all (quiet (options s)) evs \<Longrightarrow> kills (final (run evs s)) = kills s"
proof (induction evs arbitrary: s)
  case Nil
  then show ?case by simp
next
  case (Cons e evs)
  then have e: "quiet (options s) e" and es: "list_all (quiet (options s)) evs" by simp_all
  show ?case
  proof (cases "dispatch e s")
    case (Inl x)
    with dispatch_quiet[OF e] show ?thesis by (cases x) simp
  next
    case (Inr s1)
    with dispatch_options[of e s] have "options s1 = options s" by simp
    with dispatch_quiet[OF e] Cons.IH[of s1] es Inr show ?thesis by simp
  qed
qed

lemma running_exited:
  assumes "wf s" "i < length (tasks s)"
  shows "[j \<leftarrow> [0..<length (tasks (exited i c s))].
            isRunning (tasks (exited i c s) ! j) \<and> process (tasks (exited i c s) ! j) \<noteq> None]
         = [j \<leftarrow> running s. j \<noteq> i]"
  using assms unfolding running_def filter_filter
  by (intro filter_cong) (auto simp: exited_def exitTask_def wf_def list_all_length nth_list_update)

subsection \<open>Shutdown, joining and delivery\<close>

lemma length_spinnerFrames: "length spinnerFrames = 10"
  by (simp add: spinnerFrames_def)

lemma running_started:
  assumes "wf s"
  shows "[i \<leftarrow> [0..<length (tasks s)]. isRunning (tasks s ! i) \<and> process (tasks s ! i) \<noteq> None] = running s"
  using assms unfolding running_def
  by (intro filter_cong) (auto simp: wf_def list_all_length)

lemma dispatch_exited: "exitStatus s \<noteq> None \<Longrightarrow> dispatch e s = Inr s"
  by (auto simp: dispatch_def)

lemma run_exited: "exitStatus s \<noteq> None \<Longrightarrow> run evs s = Inr s"
  by (induction evs) (simp_all add: dispatch_exited)

lemma join_snoc: "join sep (xs @ [d]) = (if xs = [] then d else join sep xs @ sep @ d)"
  by (induction sep xs rule: join.induct) auto

lemma delivered_Cons: "delivered col i (e # es) = delivered col i [e] @ delivered col i es"
  by (cases e) auto

lemma delivered_Data: "delivered col i (map (Data i) ds) = ds"
  by (induction ds) auto

lemma wf_hasHandle: "wf s \<Longrightarrow> hasHandle s i = (i < length (tasks s))"
  by (auto simp: wf_def hasHandle_def list_all_length)

lemma dispatch_delivers:
  assumes "wf s" "exitStatus s = None" "i < length (tasks s)" "selectable (length (tasks s)) e" "e \<noteq> Quit"
  shows "\<exists>s'. dispatch e s = Inr s' \<and> wf s' \<and> exitStatus s' = None \<and>
              length (tasks s') = length (tasks s) \<and> colour s' = colour s \<and>
              logs (tasks s' ! i) = logs (tasks s ! i) @ delivered (colour s) i [e]"
proof (cases e)
  case (Data j d)
  then show ?thesis using assms onData_wf[of s j d]
    by (auto simp: dispatch_def wf_hasHandle nth_list_update)
next
  case (Exit j c)
  then show ?thesis using assms onExit_wf[of s j c] wf_exited[of s j c]
    by (auto simp: dispatch_def wf_hasHandle wf_killAllTasks)
       (auto simp: exited_def killAllTasks_def exitTask_def nth_list_update)
next
  case (Tick j)
  then show ?thesis using assms onTick_wf[of s j]
    by (auto simp: dispatch_def) (auto simp: onTick_def setItemContent_def split: if_splits)
next
  case (Select k)
  then show ?thesis using assms handleTaskSelect_wf[of s k] by (auto simp: dispatch_def)
next
  case (KeyUp k)
  then show ?thesis using assms handleTaskSelect_wf[of s k] by (auto simp: dispatch_def)
next
  case (KeyDown k)
  then show ?thesis using assms handleTaskSelect_wf[of s k] by (auto simp: dispatch_def)
next
  case Resize
  then show ?thesis using assms by (simp add: dispatch_def updateLogBox_wf)
next
  case ToggleMouse
  then show ?thesis using assms by (simp add: dispatch_def wf_def)
next
  case Wheel
  then show ?thesis using assms by (simp add: dispatch_def)
next
  case Quit
  then show ?thesis using assms by simp
qed

lemma run_delivers:
  assumes "wf s" "exitStatus s = None" "i < length (tasks s)"
    "list_all (selectable (length (tasks s))) evs" "Quit \<notin> set evs"
  shows "\<exists>s'. run evs s = Inr s' \<and> logs (tasks s' ! i) = logs (tasks s ! i) @ delivered (colour s) i evs"
  using assms
proof (induction evs arbitrary: s)
  case Nil
  then show ?case by simp
next
  case (Cons e evs)
  from Cons.prems have "selectable (length (tasks s)) e" "e \<noteq> Quit" by auto
  from dispatch_delivers[OF Cons.prems(1-3) this] obtain s1 where
    s1: "dispatch e s = Inr s1" "wf s1" "exitStatus s1 = None"
        "length (tasks s1) = length (tasks s)" "colour s1 = colour s"
        "logs (tasks s1 ! i) = logs (tasks s ! i) @ delivered (colour s) i [e]"
    by blast
  from Cons.prems s1 have "\<exists>s'. run evs s1 = Inr s' \<and>
      logs (tasks s' ! i) = logs (tasks s1 ! i) @ delivered (colour s1) i evs"
    by (intro Cons.IH) auto
  with s1 show ?case
    using delivered_Cons[of "colour s" i e evs] by auto
qed

subsection \<open>The sample viewer\<close>

lemma string_of_nat_digit: "n < 10 \<Longrightarrow> string_of_nat n = [digit n]"
  by (simp add: string_of_nat.simps)

lemmas ctor_defs = string_of_nat_digit digit_def example_viewer_def newLogViewer_def initializeUI_def fields_def
  updateLogBox_def startTasks_def startTask_def spawn_ok_def example_options_def newTask_def
  getTaskLabel_def Let_def

lemma example_tasks:
  "tasks example_viewer =
     [\<lparr>task_id = ''task-0'', title = ''a'', command = ''a'', isRunning = True,
       logs = [], process = Some 0, exitCode = None\<rparr>,
      \<lparr>task_id = ''task-1'', title = ''b'', command = ''b'', isRunning = True,
       logs = [], process = Some 1, exitCode = None\<rparr>,
      \<lparr>task_id = ''task-2'', title = ''c'', command = ''c'', isRunning = True,
       logs = [], process = Some 2, exitCode = None\<rparr>]"
  by (simp add: ctor_defs)

lemma example_fields:
  "currentTaskIndex example_viewer = 0"
  "options example_viewer = example_options"
  "spinnerIntervals example_viewer = [0, 1, 2]"
  "activeTimers example_viewer = [0, 1, 2]"
  "logBoxContent example_viewer = []"
  "length (sidebarItems example_viewer) = 3"
  "colour example_viewer = True"
  "exitStatus example_viewer = None"
  "trace example_viewer = [PtyWrite 0 (''a'' @ cr), PtyWrite 1 (''b'' @ cr), PtyWrite 2 (''c'' @ cr)]"
  by (simp_all add: ctor_defs)

lemma example_sidebar:
  "sidebarItems example_viewer =
     [glyph_running @ '' a'', glyph_running @ '' b'', glyph_running @ '' c'']"
  by (simp add: ctor_defs)

lemma example_wf: "wf example_viewer"
  by (simp add: wf_def example_tasks example_fields)

lemma example_running: "running example_viewer = [0, 1, 2]"
  by (simp add: running_def example_tasks)

lemma example_on_fail_tasks:
  "tasks example_viewer_on_fail =
     [\<lparr>task_id = ''task-0'', title = ''a'', command = ''a'', isRunning = True,
       logs = [], process = Some 0, exitCode = None\<rparr>,
      \<lparr>task_id = ''task-1'', title = ''b'', command = ''b'', isRunning = True,
       logs = [], process = Some 1, exitCode = None\<rparr>,
      \<lparr>task_id = ''task-2'', title = ''c'', command = ''c'', isRunning = True,
       logs = [], process = Some 2, exitCode = None\<rparr>]"
  by (simp add: ctor_defs example_viewer_on_fail_def example_options_on_fail_def)

lemma example_on_fail_fields:
  "currentTaskIndex example_viewer_on_fail = 0"
  "options example_viewer_on_fail = example_options_on_fail"
  "spinnerIntervals example_viewer_on_fail = [0, 1, 2]"
  "activeTimers example_viewer_on_fail = [0, 1, 2]"
  "logBoxContent example_viewer_on_fail = []"
  "length (sidebarItems example_viewer_on_fail) = 3"
  "exitStatus example_viewer_on_fail = None"
  "trace example_viewer_on_fail =
     [PtyWrite 0 (''a'' @ cr), PtyWrite 1 (''b'' @ cr), PtyWrite 2 (''c'' @ cr)]"
  by (simp_all add: ctor_defs example_viewer_on_fail_def example_options_on_fail_def)

lemma example_on_fail_wf: "wf example_viewer_on_fail"
  by (simp add: wf_def example_on_fail_tasks example_on_fail_fields)

lemma example_on_fail_running: "running example_viewer_on_fail = [0, 1, 2]"
  by (simp add: running_def example_on_fail_tasks)

lemma example_exited_wf: "wf example_exited \<and> length (tasks example_exited) = 3"
  using run_wf[OF example_wf, of "[Exit 1 0]"]
  by (auto simp: example_exited_def example_tasks)

lemma example_exited_eq: "example_exited = killAllTasks (exited 1 0 example_viewer)"
  using onExit_wf[OF example_wf, of 1 0]
  by (simp add: example_exited_def dispatch_def wf_hasHandle[OF example_wf] example_fields
        example_tasks example_options_def killPolicy_def)

lemma example_exited_task: "\<not> isRunning (tasks example_exited ! 1)"
  by (simp add: example_exited_eq killAllTasks_def exited_def exitTask_def example_tasks)

lemma example_spinner: "spinnerIndex example_viewer i = 0"
  by (simp add: ctor_defs)

subsection \<open>Construction\<close>

lemma forEachIndex_append:
  "forEachIndex f (xs @ ys) s = and_then (forEachIndex f xs s) (forEachIndex f ys)"
  by (induction xs arbitrary: s) (auto simp: and_then_def split: sum.splits)

lemma forEachIndex_single: "forEachIndex f [i] s = f i s"
  by (cases "f i s") simp_all

lemma fields_tasks:
  "length (tasks (fields col opts)) = length (commands opts)"
  "i < length (commands opts) \<Longrightarrow> tasks (fields col opts) ! i = newTask i (commands opts ! i)"
  by (simp_all add: fields_def nth_enumerate_eq)

lemma initializeUI_fields:
  assumes "commands opts \<noteq> []"
  shows "initializeUI (fields col opts) =
           Inr ((fields col opts)\<lparr>sidebarItems := map (getTaskLabel col) (tasks (fields col opts))\<rparr>)"
proof -
  from assms have "0 < length (commands opts)" by simp
  then have "logs (tasks (fields col opts) ! 0) = []"
    by (simp add: fields_tasks newTask_def)
  then show ?thesis
    using assms by (simp add: initializeUI_def updateLogBox_def) (simp add: fields_def)
qed

lemma initializeUI_empty:
  assumes "commands opts = []"
  shows "\<exists>s. initializeUI (fields col opts) = Inl (TypeError, s)"
  using assms by (simp add: initializeUI_def updateLogBox_def fields_def)

lemma startTasks_prefix:
  assumes "n \<le> length (tasks s)"
    and "\<forall>i<n. isRunning (tasks s ! i) \<and> spawn i \<noteq> None"
  shows "\<exists>s'. forEachIndex (startTask spawn) [0..<n] s = Inr s' \<and>
           length (tasks s') = length (tasks s) \<and>
           (\<forall>i<length (tasks s). tasks s' ! i =
               (if i < n then (tasks s ! i)\<lparr>process := spawn i\<rparr> else tasks s ! i)) \<and>
           currentTaskIndex s' = currentTaskIndex s \<and> logBoxContent s' = logBoxContent s \<and>
           sidebarItems s' = sidebarItems s \<and>
           activeTimers s' = activeTimers s @ [0..<n] \<and>
           spinnerIntervals s' = spinnerIntervals s @ [0..<n] \<and>
           trace s' = trace s @ map (\<lambda>i. PtyWrite i (command (tasks s ! i) @ cr)) [0..<n] \<and>
           exitStatus s' = exitStatus s \<and> colour s' = colour s \<and> options s' = options s \<and>
           mouseEnabled s' = mouseEnabled s"
  using assms
proof (induction n)
  case 0
  then show ?case by simp
next
  case (Suc n)
  then obtain s1 where s1: "forEachIndex (startTask spawn) [0..<n] s = Inr s1"
      "length (tasks s1) = length (tasks s)"
      "\<forall>i<length (tasks s). tasks s1 ! i =
               (if i < n then (tasks s ! i)\<lparr>process := spawn i\<rparr> else tasks s ! i)"
      "currentTaskIndex s1 = currentTaskIndex s" "logBoxContent s1 = logBoxContent s"
      "sidebarItems s1 = sidebarItems s"
      "activeTimers s1 = activeTimers s @ [0..<n]"
      "spinnerIntervals s1 = spinnerIntervals s @ [0..<n]"
      "trace s1 = trace s @ map (\<lambda>i. PtyWrite i (command (tasks s ! i) @ cr)) [0..<n]"
      "exitStatus s1 = exitStatus s" "colour s1 = colour s" "options s1 = options s"
      "mouseEnabled s1 = mouseEnabled s"
    by force
  from Suc.prems have n: "n < length (tasks s)" "isRunning (tasks s ! n)" and "spawn n \<noteq> None"
    by auto
  then obtain p where p: "spawn n = Some p" by auto
  from s1(3) n have tn: "tasks s1 ! n = tasks s ! n" by simp
  have "forEachIndex (startTask spawn) [0..<Suc n] s = startTask spawn n s1"
    using s1(1) forEachIndex_single[of "startTask spawn" n s1]
    by (simp add: forEachIndex_append del: forEachIndex.simps)
  also have "\<dots> = Inr (s1\<lparr>tasks := (tasks s1)[n := (tasks s ! n)\<lparr>process := Some p\<rparr>],
                    trace := trace s1 @ [PtyWrite n (command (tasks s ! n) @ cr)],
                    spinnerIndex := (spinnerIndex s1)(n := 0),
                    activeTimers := activeTimers s1 @ [n],
                    spinnerIntervals := spinnerIntervals s1 @ [n]\<rparr>)"
    using n p tn by (simp add: startTask_def Let_def)
  finally show ?case
    using s1 n p by (auto simp: nth_list_update less_Suc_eq)
qed

lemma startTasks_fails:
  assumes "k < length (tasks s)" and "spawn k = None"
    and "\<forall>i\<le>k. isRunning (tasks s ! i)" and "\<forall>i<k. spawn i \<noteq> None"
  shows "\<exists>s'. startTasks spawn s = Inl (SpawnError, s') \<and>
           length (tasks s') = length (tasks s) \<and>
           (\<forall>i<length (tasks s). tasks s' ! i =
               (if i < k then (tasks s ! i)\<lparr>process := spawn i\<rparr> else tasks s ! i)) \<and>
           currentTaskIndex s' = currentTaskIndex s \<and> logBoxContent s' = logBoxContent s"
proof -
  from assms have "k \<le> length (tasks s)" "\<forall>i<k. isRunning (tasks s ! i) \<and> spawn i \<noteq> None"
    by auto
  from startTasks_prefix[OF this] obtain s1 where s1:
      "forEachIndex (startTask spawn) [0..<k] s = Inr s1"
      "length (tasks s1) = length (tasks s)"
      "\<forall>i<length (tasks s). tasks s1 ! i =
               (if i < k then (tasks s ! i)\<lparr>process := spawn i\<rparr> else tasks s ! i)"
      "currentTaskIndex s1 = currentTaskIndex s" "logBoxContent s1 = logBoxContent s"
    by blast
  from s1(3) assms have "tasks s1 ! k = tasks s ! k" by simp
  with assms have f: "startTask spawn k s1 = Inl (SpawnError, s1)"
    by (simp add: startTask_def Let_def)
  have "[0..<length (tasks s)] = [0..<k] @ k # [Suc k..<length (tasks s)]"
    using assms(1) by (metis le_add2 less_imp_add_positive upt_add_eq_append upt_rec zero_le)
  then have "startTasks spawn s = Inl (SpawnError, s1)"
    using s1(1) f by (simp add: startTasks_def forEachIndex_append)
  with s1 show ?thesis by blast
qed

lemma newLogViewer_ok:
  assumes "commands opts \<noteq> []" and "\<forall>i<length (commands opts). spawn i \<noteq> None"
  shows "\<exists>s. newLogViewer spawn col opts = Inr s \<and> wf s \<and> exitStatus s = None \<and>
           currentTaskIndex s = 0 \<and> logBoxContent s = [] \<and>
           length (tasks s) = length (commands opts) \<and>
           (\<forall>i<length (commands opts). isRunning (tasks s ! i) \<and> logs (tasks s ! i) = [] \<and>
               exitCode (tasks s ! i) = None \<and> process (tasks s ! i) = spawn i)"
proof -
  let ?s0 = "(fields col opts)\<lparr>sidebarItems := map (getTaskLabel col) (tasks (fields col opts))\<rparr>"
  have len: "length (tasks ?s0) = length (commands opts)"
    by (simp add: fields_tasks)
  have t0: "\<forall>i<length (commands opts). tasks ?s0 ! i = newTask i (commands opts ! i)"
    by (simp add: fields_tasks)
  have "length (tasks ?s0) \<le> length (tasks ?s0)"
    "\<forall>i<length (tasks ?s0). isRunning (tasks ?s0 ! i) \<and> spawn i \<noteq> None"
    using assms(2) by (simp_all add: fields_tasks newTask_def)
  from startTasks_prefix[OF this] obtain s where s:
      "startTasks spawn ?s0 = Inr s"
      "length (tasks s) = length (tasks ?s0)"
      "\<forall>i<length (tasks ?s0). tasks s ! i = (tasks ?s0 ! i)\<lparr>process := spawn i\<rparr>"
      "currentTaskIndex s = currentTaskIndex ?s0" "logBoxContent s = logBoxContent ?s0"
      "sidebarItems s = sidebarItems ?s0"
      "activeTimers s = activeTimers ?s0 @ [0..<length (tasks ?s0)]"
      "spinnerIntervals s = spinnerIntervals ?s0 @ [0..<length (tasks ?s0)]"
      "exitStatus s = exitStatus ?s0"
    unfolding startTasks_def by auto
  have new: "newLogViewer spawn col opts = Inr s"
    using s(1) by (simp add: newLogViewer_def initializeUI_fields[OF assms(1)])
  have cur: "currentTaskIndex s = 0" "logBoxContent s = []" "exitStatus s = None"
    using s by (simp_all add: fields_def)
  have tasks: "\<forall>i<length (commands opts). isRunning (tasks s ! i) \<and> logs (tasks s ! i) = [] \<and>
               exitCode (tasks s ! i) = None \<and> process (tasks s ! i) = spawn i"
    using s(3) t0 len by (simp add: newTask_def)
  have "0 < length (commands opts)" using assms(1) by simp
  with tasks have l0: "logs (tasks s ! nat 0) = []" by simp
  have "wf s"
    unfolding wf_def using s(2,6,7,8) len cur l0 tasks assms
    by (simp add: list_all_length) (simp add: fields_def)
  with new cur tasks s(2) len show ?thesis by simp
qed

lemma first_failure:
  fixes spawn :: "nat \<Rightarrow> IPty option"
  assumes "spawn k = None"
  shows "\<exists>k0\<le>k. spawn k0 = None \<and> (\<forall>i<k0. spawn i \<noteq> None)"
proof -
  define k0 where "k0 = (LEAST j. spawn j = None)"
  have "spawn k0 = None"
    unfolding k0_def using assms LeastI[of "\<lambda>j. spawn j = None" k] by simp
  moreover have "k0 \<le> k"
    unfolding k0_def using assms Least_le[of "\<lambda>j. spawn j = None" k] by simp
  moreover have "\<forall>i<k0. spawn i \<noteq> None"
    unfolding k0_def using not_less_Least[of _ "\<lambda>j. spawn j = None"] by blast
  ultimately show ?thesis by blast
qed

lemma newLogViewer_fails:
  assumes "k < length (commands opts)" and "spawn k = None" and "\<forall>i<k. spawn i \<noteq> None"
  shows "\<exists>s'. newLogViewer spawn col opts = Inl (SpawnError, s') \<and>
           length (tasks s') = length (commands opts) \<and>
           (\<forall>i<length (commands opts). isRunning (tasks s' ! i) \<and> logs (tasks s' ! i) = [] \<and>
               exitCode (tasks s' ! i) = None \<and>
               process (tasks s' ! i) = (if i < k then spawn i else None))"
proof -
  let ?s0 = "(fields col opts)\<lparr>sidebarItems := map (getTaskLabel col) (tasks (fields col opts))\<rparr>"
  from assms(1) have ne: "commands opts \<noteq> []" by auto
  have len: "length (tasks ?s0) = length (commands opts)"
    by (simp add: fields_tasks)
  have t0: "\<forall>i<length (commands opts). tasks ?s0 ! i = newTask i (commands opts ! i)"
    by (simp add: fields_tasks)
  have "k < length (tasks ?s0)" "\<forall>i\<le>k. isRunning (tasks ?s0 ! i)"
    using assms(1) by (simp_all add: fields_tasks newTask_def)
  from startTasks_fails[of k ?s0 spawn] this assms(2,3) obtain s' where s':
      "startTasks spawn ?s0 = Inl (SpawnError, s')"
      "length (tasks s') = length (tasks ?s0)"
      "\<forall>i<length (tasks ?s0). tasks s' ! i =
               (if i < k then (tasks ?s0 ! i)\<lparr>process := spawn i\<rparr> else tasks ?s0 ! i)"
    by blast
  have "newLogViewer spawn col opts = Inl (SpawnError, s')"
    using s'(1) by (simp add: newLogViewer_def initializeUI_fields[OF ne])
  moreover have "\<forall>i<length (commands opts). isRunning (tasks s' ! i) \<and> logs (tasks s' ! i) = [] \<and>
               exitCode (tasks s' ! i) = None \<and>
               process (tasks s' ! i) = (if i < k then spawn i else None)"
    using s'(3) t0 len by (simp add: newTask_def)
  ultimately show ?thesis using s'(2) len by simp
qed

subsection \<open>Exit events\<close>

lemma exitMarker_contains:
  "\<exists>pre post. exitMarker col c = pre @ ''Process exited with code '' @ string_of_int c @ post"
proof (cases col)
  case True
  have "exitMarker col c = (nl @ CHR 0x1B # ''[33m'') @ ''Process exited with code '' @ string_of_int c @ (CHR 0x1B # ''[39m'')"
    using True by (simp add: exitMarker_def pc_yellow_def)
  then show ?thesis by blast
next
  case False
  have "exitMarker col c = nl @ ''Process exited with code '' @ string_of_int c @ []"
    using False by (simp add: exitMarker_def pc_yellow_def)
  then show ?thesis by blast
qed

lemma wf_trace: "wf (s\<lparr>trace := tr\<rparr>) = wf s"
  by (simp add: wf_def)

lemma exitedBy_trace: "exitedBy x (s\<lparr>trace := tr\<rparr>) = (exitedBy x s)\<lparr>trace := tr\<rparr>"
  by (simp add: exitedBy_def exited_def)

lemma fold_exitedBy_trace:
  "fold exitedBy xs (s\<lparr>trace := tr\<rparr>) = (fold exitedBy xs s)\<lparr>trace := tr\<rparr>"
  by (induction xs arbitrary: s) (simp_all add: exitedBy_trace)

lemma exited_out_of_range:
  assumes "wf s" and "\<not> i < length (tasks s)"
  shows "exited i c s = s"
  using assms by (simp add: exited_def wf_def list_update_beyond not_less)

lemma onExit_trace:
  assumes "wf s" and "i < length (tasks s)"
  shows "onExit i c s =
           Inr ((exited i c s)\<lparr>trace := trace s @
                  (if killPolicy (options s) c then map Kill [j \<leftarrow> running s. j \<noteq> i] else [])\<rparr>)"
proof -
  have "killAllTasks (exited i c s) =
          (exited i c s)\<lparr>trace := trace s @ map Kill [j \<leftarrow> running s. j \<noteq> i]\<rparr>"
    using running_exited[OF assms, of c] by (simp add: killAllTasks_def) (simp add: exited_def)
  moreover have "exited i c s = (exited i c s)\<lparr>trace := trace s\<rparr>"
    by (simp add: exited_def)
  ultimately show ?thesis
    using onExit_wf[OF assms, of c] by simp
qed

lemma dispatch_Exit:
  assumes "wf s" and "exitStatus s = None"
  shows "\<exists>js. dispatch (Exit i c) s = Inr ((exited i c s)\<lparr>trace := trace s @ map Kill js\<rparr>) \<and>
              length js \<le> length (tasks s) - 1"
proof (cases "i < length (tasks s)")
  case True
  let ?js = "if killPolicy (options s) c then [j \<leftarrow> running s. j \<noteq> i] else []"
  have "i \<in> set [0..<length (tasks s)]" using True by simp
  then have "length [j \<leftarrow> [0..<length (tasks s)]. isRunning (tasks s ! j) \<and> j \<noteq> i]
               < length [0..<length (tasks s)]"
    by (rule length_filter_less) simp
  then have "length [j \<leftarrow> running s. j \<noteq> i] \<le> length (tasks s) - 1"
    by (simp add: running_def)
  then have "length ?js \<le> length (tasks s) - 1"
    by simp
  moreover have "dispatch (Exit i c) s = Inr ((exited i c s)\<lparr>trace := trace s @ map Kill ?js\<rparr>)"
    using onExit_trace[OF assms(1) True, of c] assms True
    by (simp add: dispatch_def wf_hasHandle)
  ultimately show ?thesis by blast
next
  case False
  then have "dispatch (Exit i c) s = Inr ((exited i c s)\<lparr>trace := trace s @ map Kill []\<rparr>)"
    using assms by (simp add: dispatch_def wf_hasHandle exited_out_of_range)
  then show ?thesis by (metis list.size(3) zero_le)
qed

lemma kills_append: "kills (s\<lparr>trace := trace s0 @ map Kill js\<rparr>) = kills s0 @ js"
  by (simp add: kills_def) (induction js; simp)

lemma exited_facts:
  "exitStatus (exited i c s) = exitStatus s" "length (tasks (exited i c s)) = length (tasks s)"
  "trace (exited i c s) = trace s"
  by (simp_all add: exited_def)

lemma run_exits:
  assumes "wf s" and "exitStatus s = None"
  shows "\<exists>tr. run (exits xs) s = Inr ((fold exitedBy xs s)\<lparr>trace := tr\<rparr>) \<and>
              length (concat (map (\<lambda>e. case e of Kill j \<Rightarrow> [j] | _ \<Rightarrow> []) tr))
                \<le> length (kills s) + length xs * (length (tasks s) - 1)"
  using assms
proof (induction xs arbitrary: s)
  case Nil
  then show ?case by (auto simp: exits_def kills_def intro!: exI[of _ "trace s"])
next
  case (Cons x xs)
  obtain i c where x: "x = (i, c)" by (cases x)
  from dispatch_Exit[OF Cons.prems, of i c] obtain js where
    js: "dispatch (Exit i c) s = Inr ((exited i c s)\<lparr>trace := trace s @ map Kill js\<rparr>)"
        "length js \<le> length (tasks s) - 1"
    by blast
  let ?s1 = "(exited i c s)\<lparr>trace := trace s @ map Kill js\<rparr>"
  have wf1: "wf ?s1"
    using Cons.prems(1) by (cases "i < length (tasks s)") (simp_all add: wf_trace wf_exited exited_out_of_range)
  have st1: "exitStatus ?s1 = None" using Cons.prems(2) by (simp add: exited_facts)
  from Cons.IH[OF wf1 st1] obtain tr where
    tr: "run (exits xs) ?s1 = Inr ((fold exitedBy xs ?s1)\<lparr>trace := tr\<rparr>)"
        "length (concat (map (\<lambda>e. case e of Kill j \<Rightarrow> [j] | _ \<Rightarrow> []) tr))
                \<le> length (kills ?s1) + length xs * (length (tasks ?s1) - 1)"
    by blast
  have "run (exits (x # xs)) s = run (exits xs) ?s1"
    using js(1) x by (simp add: exits_def)
  also have "\<dots> = Inr ((fold exitedBy (x # xs) s)\<lparr>trace := tr\<rparr>)"
    using tr(1) x by (simp add: fold_exitedBy_trace exitedBy_def)
  finally have r: "run (exits (x # xs)) s = Inr ((fold exitedBy (x # xs) s)\<lparr>trace := tr\<rparr>)" .
  have "length (kills ?s1) = length (kills s) + length js"
    by (simp add: kills_append)
  with tr(2) js(2) have "length (concat (map (\<lambda>e. case e of Kill j \<Rightarrow> [j] | _ \<Rightarrow> []) tr))
                \<le> length (kills s) + length (x # xs) * (length (tasks s) - 1)"
    by (simp add: exited_facts)
  with r show ?case by blast
qed

lemma exitedBy_commute:
  assumes "fst x \<noteq> fst y"
  shows "exitedBy x \<circ> exitedBy y = exitedBy y \<circ> exitedBy x"
proof
  fix s :: LogViewer
  have "(tasks s)[fst y := exitTask (colour s) (snd y) (tasks s ! fst y),
                  fst x := exitTask (colour s) (snd x) (tasks s ! fst x)]
        = (tasks s)[fst x := exitTask (colour s) (snd x) (tasks s ! fst x),
                    fst y := exitTask (colour s) (snd y) (tasks s ! fst y)]"
    using assms by (simp add: list_update_swap)
  moreover have "(sidebarItems s)[fst y := getTaskLabel (colour s) (exitTask (colour s) (snd y) (tasks s ! fst y)),
                  fst x := getTaskLabel (colour s) (exitTask (colour s) (snd x) (tasks s ! fst x))]
        = (sidebarItems s)[fst x := getTaskLabel (colour s) (exitTask (colour s) (snd x) (tasks s ! fst x)),
                    fst y := getTaskLabel (colour s) (exitTask (colour s) (snd y) (tasks s ! fst y))]"
    using assms by (simp add: list_update_swap)
  ultimately show "(exitedBy x \<circ> exitedBy y) s = (exitedBy y \<circ> exitedBy x) s"
    using assms by (simp add: exitedBy_def exited_def)
qed

lemma fold_exitedBy_permuted:
  assumes "distinct (map fst xs)" and "mset ys = mset xs"
  shows "fold exitedBy ys = fold exitedBy xs"
proof (rule fold_multiset_equiv[symmetric])
  fix x y
  assume "x \<in> set xs" "y \<in> set xs"
  show "exitedBy x \<circ> exitedBy y = exitedBy y \<circ> exitedBy x"
  proof (cases "x = y")
    case True
    then show ?thesis by simp
  next
    case False
    with \<open>x \<in> set xs\<close> \<open>y \<in> set xs\<close> assms(1) have "fst x \<noteq> fst y"
      by (metis eq_key_imp_eq_value prod.collapse)
    then show ?thesis by (rule exitedBy_commute)
  qed
next
  show "mset xs = mset ys" using assms(2) by simp
qed

lemma fold_exitedBy_not_running:
  "j < length (tasks s) \<Longrightarrow> (\<exists>c. (j, c) \<in> set xs) \<or> \<not> isRunning (tasks s ! j) \<Longrightarrow>
   \<not> isRunning (tasks (fold exitedBy xs s) ! j)"
proof (induction xs arbitrary: s)
  case Nil
  then show ?case by simp
next
  case (Cons x xs)
  have len: "j < length (tasks (exitedBy x s))"
    using Cons.prems(1) by (simp add: exitedBy_def exited_facts)
  have "(\<exists>c. (j, c) \<in> set xs) \<or> \<not> isRunning (tasks (exitedBy x s) ! j)"
    using Cons.prems
    by (cases x; cases "fst x = j") (auto simp: exitedBy_def exited_def exitTask_def)
  from Cons.IH[OF len this] show ?case by simp
qed

lemma example_exited_status: "exitStatus example_exited = None"
  by (simp add: example_exited_eq killAllTasks_def exited_def example_fields)

section \<open>The claims\<close>

text \<open>
  C1. When a task's exit callback runs with exit code \<open>c\<close>, kills are issued if and only
  if \<open>killOthers\<close> is set and \<open>c = 0\<close>, or \<open>killOthersOnFail\<close> is set and \<open>c \<noteq> 0\<close>. When
  issued, one kill goes to every other task that is running at that moment, in registry
  order, and to no other; when not, the callback has no effect on the outside world.
  A run of events with no quit in which no exit event meets that condition (such as every
  task exiting with code 0 under \<open>killOthersOnFail\<close> alone) issues no kill at all.
\<close>

theorem kill_policy_on_exit:
  assumes "wf s" and "i < length (tasks s)"
  shows "(\<exists>s'. onExit i c s = Inr s' \<and>
            trace s' = trace s @
              (if (killOthers (options s) \<and> c = 0) \<or> (killOthersOnFail (options s) \<and> c \<noteq> 0)
               then map Kill [j \<leftarrow> running s. j \<noteq> i] else []))
         \<and> (\<forall>evs. list_all (quiet (options s)) evs \<longrightarrow> kills (final (run evs s)) = kills s)"
proof -
  have "trace (killAllTasks (exited i c s)) = trace s @ map Kill [j \<leftarrow> running s. j \<noteq> i]"
    using running_exited[OF assms, of c] by (simp add: killAllTasks_def) (simp add: exited_def)
  moreover have "trace (exited i c s) = trace s" by (simp add: exited_def)
  ultimately show ?thesis
    using onExit_wf[OF assms, of c] run_quiet[of s] by (auto simp: killPolicy_def)
qed

theorem kill_policy_on_exit_witness:
  "wf example_viewer \<and> 1 < length (tasks example_viewer) \<and>
   (\<exists>s'. onExit 1 0 example_viewer = Inr s' \<and> trace s' = trace example_viewer @ [Kill 0, Kill 2]) \<and>
   (\<exists>s'. onExit 1 3 example_viewer = Inr s' \<and> trace s' = trace example_viewer) \<and>
   list_all (quiet (options example_viewer)) [Data 0 ''x'', Exit 2 1] \<and>
   kills (final (run [Data 0 ''x'', Exit 2 1] example_viewer)) = [] \<and>
   wf example_viewer_on_fail \<and> 0 < length (tasks example_viewer_on_fail) \<and>
   (\<exists>s'. onExit 0 1 example_viewer_on_fail = Inr s' \<and>
         trace s' = trace example_viewer_on_fail @ [Kill 1, Kill 2]) \<and>
   (\<exists>s'. onExit 0 0 example_viewer_on_fail = Inr s' \<and> trace s' = trace example_viewer_on_fail) \<and>
   list_all (quiet (options example_viewer_on_fail)) [Exit 0 0, Exit 1 0, Exit 2 0] \<and>
   kills (final (run [Exit 0 0, Exit 1 0, Exit 2 0] example_viewer_on_fail)) = []"
proof -
  have len: "1 < length (tasks example_viewer)"
    by (simp add: example_tasks)
  have len': "0 < length (tasks example_viewer_on_fail)"
    by (simp add: example_on_fail_tasks)
  have q: "list_all (quiet (options example_viewer)) [Data 0 ''x'', Exit 2 1]"
    by (simp add: example_fields example_options_def)
  have q': "list_all (quiet (options example_viewer_on_fail)) [Exit 0 0, Exit 1 0, Exit 2 0]"
    by (simp add: example_on_fail_fields example_options_on_fail_def)
  from kill_policy_on_exit[OF example_wf len, of 0]
  have a: "\<exists>s'. onExit 1 0 example_viewer = Inr s' \<and> trace s' = trace example_viewer @ [Kill 0, Kill 2]"
    by (simp add: example_fields example_running example_options_def)
  from kill_policy_on_exit[OF example_wf len, of 3]
  have b: "\<exists>s'. onExit 1 3 example_viewer = Inr s' \<and> trace s' = trace example_viewer"
    by (simp add: example_fields example_options_def)
  from kill_policy_on_exit[OF example_wf len, of 0] q
  have "kills (final (run [Data 0 ''x'', Exit 2 1] example_viewer)) = kills example_viewer"
    by blast
  then have c: "kills (final (run [Data 0 ''x'', Exit 2 1] example_viewer)) = []"
    by (simp add: kills_def example_fields)
  from kill_policy_on_exit[OF example_on_fail_wf len', of 1]
  have d: "\<exists>s'. onExit 0 1 example_viewer_on_fail = Inr s' \<and>
         trace s' = trace example_viewer_on_fail @ [Kill 1, Kill 2]"
    by (simp add: example_on_fail_fields example_on_fail_running example_options_on_fail_def)
  from kill_policy_on_exit[OF example_on_fail_wf len', of 0]
  have e: "\<exists>s'. onExit 0 0 example_viewer_on_fail = Inr s' \<and> trace s' = trace example_viewer_on_fail"
    by (simp add: example_on_fail_fields example_options_on_fail_def)
  from kill_policy_on_exit[OF example_on_fail_wf len', of 0] q'
  have "kills (final (run [Exit 0 0, Exit 1 0, Exit 2 0] example_viewer_on_fail)) =
        kills example_viewer_on_fail"
    by blast
  then have f: "kills (final (run [Exit 0 0, Exit 1 0, Exit 2 0] example_viewer_on_fail)) = []"
    by (simp add: kills_def example_on_fail_fields)
  from a b c d e f q q' len len' example_wf example_on_fail_wf show ?thesis
    by blast
qed

text \<open>
  C2, as the program has it. The kill broadcast reads the current task states only: it
  changes nothing in the object and sends a kill to exactly the tasks that are marked
  running, whether or not they were signalled before. A task that is no longer running
  never receives another kill, whatever events follow. A list of exit events is
  processed to the end, each event making at most one broadcast (at most one kill per
  other task), and leaves every task it names not running. When each task exits once,
  processing the same exit events in any other order ends in the same object, the
  effect trace apart.
\<close>

theorem kill_propagation_converges:
  assumes "wf s" and "exitStatus s = None"
  shows "killAllTasks s = s\<lparr>trace := trace s @ map Kill (running s)\<rparr> \<and>
         (\<forall>j<length (tasks s). \<not> isRunning (tasks s ! j) \<longrightarrow>
            (\<forall>evs. count_list (kills (final (run evs s))) j = count_list (kills s) j)) \<and>
         (\<exists>s1. run (exits xs) s = Inr s1 \<and>
               length (kills s1) \<le> length (kills s) + length xs * (length (tasks s) - 1) \<and>
               (\<forall>j<length (tasks s). (\<exists>c. (j, c) \<in> set xs) \<longrightarrow> \<not> isRunning (tasks s1 ! j)) \<and>
               (\<forall>ys. distinct (map fst xs) \<and> mset ys = mset xs \<longrightarrow>
                  (\<exists>s2. run (exits ys) s = Inr s2 \<and> s2\<lparr>trace := []\<rparr> = s1\<lparr>trace := []\<rparr>)))"
proof -
  have a: "killAllTasks s = s\<lparr>trace := trace s @ map Kill (running s)\<rparr>"
    using running_started[OF assms(1)] by (simp add: killAllTasks_def)
  have b: "\<forall>j<length (tasks s). \<not> isRunning (tasks s ! j) \<longrightarrow>
            (\<forall>evs. count_list (kills (final (run evs s))) j = count_list (kills s) j)"
    using run_kills_exited[of _ s] by blast
  from run_exits[OF assms, of xs] obtain tr where
    tr: "run (exits xs) s = Inr ((fold exitedBy xs s)\<lparr>trace := tr\<rparr>)"
        "length (concat (map (\<lambda>e. case e of Kill j \<Rightarrow> [j] | _ \<Rightarrow> []) tr))
                \<le> length (kills s) + length xs * (length (tasks s) - 1)"
    by blast
  let ?s1 = "(fold exitedBy xs s)\<lparr>trace := tr\<rparr>"
  have c1: "length (kills ?s1) \<le> length (kills s) + length xs * (length (tasks s) - 1)"
    using tr(2) by (simp add: kills_def)
  have c2: "\<forall>j<length (tasks s). (\<exists>c. (j, c) \<in> set xs) \<longrightarrow> \<not> isRunning (tasks ?s1 ! j)"
    using fold_exitedBy_not_running[of _ s xs] by simp
  have c3: "\<forall>ys. distinct (map fst xs) \<and> mset ys = mset xs \<longrightarrow>
                  (\<exists>s2. run (exits ys) s = Inr s2 \<and> s2\<lparr>trace := []\<rparr> = ?s1\<lparr>trace := []\<rparr>)"
  proof (intro allI impI)
    fix ys
    assume h: "distinct (map fst xs) \<and> mset ys = mset xs"
    from run_exits[OF assms, of ys] obtain tr' where
      "run (exits ys) s = Inr ((fold exitedBy ys s)\<lparr>trace := tr'\<rparr>)" by blast
    moreover have "fold exitedBy ys s = fold exitedBy xs s"
      using fold_exitedBy_permuted[of xs ys] h by simp
    ultimately show "\<exists>s2. run (exits ys) s = Inr s2 \<and> s2\<lparr>trace := []\<rparr> = ?s1\<lparr>trace := []\<rparr>"
      by simp
  qed
  from a b tr(1) c1 c2 c3 show ?thesis by blast
qed

theorem kill_propagation_converges_witness:
  "wf example_viewer \<and> exitStatus example_viewer = None \<and>
   killAllTasks example_viewer = example_viewer\<lparr>trace := trace example_viewer @ [Kill 0, Kill 1, Kill 2]\<rparr> \<and>
   distinct (map fst [(1::nat, 0::int), (0, 0), (2, 1)]) \<and>
   mset [(2::nat, 1::int), (1, 0), (0, 0)] = mset [(1::nat, 0::int), (0, 0), (2, 1)] \<and>
   (\<exists>s1 s2. run (exits [(1::nat, 0::int), (0, 0), (2, 1)]) example_viewer = Inr s1 \<and>
            run (exits [(2::nat, 1::int), (1, 0), (0, 0)]) example_viewer = Inr s2 \<and>
            s2\<lparr>trace := []\<rparr> = s1\<lparr>trace := []\<rparr> \<and>
            length (kills s1) \<le> 6 \<and> \<not> isRunning (tasks s1 ! 0)) \<and>
   wf example_exited \<and> exitStatus example_exited = None \<and> 1 < length (tasks example_exited) \<and>
   \<not> isRunning (tasks example_exited ! 1) \<and>
   count_list (kills (final (run [Exit 0 0, Quit] example_exited))) 1 = count_list (kills example_exited) 1"
proof -
  let ?xs = "[(1::nat, 0::int), (0, 0), (2, 1)]"
  let ?ys = "[(2::nat, 1::int), (1, 0), (0, 0)]"
  have st: "exitStatus example_viewer = None"
    by (simp add: example_fields)
  have d: "distinct (map fst ?xs)" and m: "mset ?ys = mset ?xs"
    by simp_all
  have len': "1 < length (tasks example_exited)"
    using example_exited_wf by simp
  note t = kill_propagation_converges[OF example_wf st, of ?xs]
  from t have a: "killAllTasks example_viewer =
      example_viewer\<lparr>trace := trace example_viewer @ [Kill 0, Kill 1, Kill 2]\<rparr>"
    by (simp add: example_running)
  from t obtain s1 where s1: "run (exits ?xs) example_viewer = Inr s1"
      "length (kills s1) \<le> length (kills example_viewer) + length ?xs * (length (tasks example_viewer) - 1)"
      "\<forall>j<length (tasks example_viewer). (\<exists>c. (j, c) \<in> set ?xs) \<longrightarrow> \<not> isRunning (tasks s1 ! j)"
      "\<forall>ys. distinct (map fst ?xs) \<and> mset ys = mset ?xs \<longrightarrow>
            (\<exists>s2. run (exits ys) example_viewer = Inr s2 \<and> s2\<lparr>trace := []\<rparr> = s1\<lparr>trace := []\<rparr>)"
    by (elim conjE exE)
  from s1(4) d m obtain s2 where s2: "run (exits ?ys) example_viewer = Inr s2"
      "s2\<lparr>trace := []\<rparr> = s1\<lparr>trace := []\<rparr>"
    by blast
  from s1(2) have k: "length (kills s1) \<le> 6"
    by (simp add: kills_def example_fields example_tasks)
  from s1(3) have r: "\<not> isRunning (tasks s1 ! 0)"
    by (simp add: example_tasks)
  from kill_propagation_converges[OF conjunct1[OF example_exited_wf] example_exited_status, of "[]"]
    len' example_exited_task
  have b: "count_list (kills (final (run [Exit 0 0, Quit] example_exited))) 1 = count_list (kills example_exited) 1"
    by blast
  from s1(1) s2 k r have c: "\<exists>s1 s2. run (exits ?xs) example_viewer = Inr s1 \<and>
            run (exits ?ys) example_viewer = Inr s2 \<and>
            s2\<lparr>trace := []\<rparr> = s1\<lparr>trace := []\<rparr> \<and>
            length (kills s1) \<le> 6 \<and> \<not> isRunning (tasks s1 ! 0)"
    by blast
  from a c b d m st len' example_wf example_exited_wf example_exited_status example_exited_task
  show ?thesis by simp
qed

text \<open>
  C2 as stated fails where it takes a kill of an already signalled task to be a no-op:
  with \<open>killOthers\<close> set, task 1 exits with code 0 and tasks 0 and 2 are killed; the exit
  event of task 0 with code 0 then kills task 2, still marked running, a second time.
  Two broadcasts in a row send every kill twice.
\<close>

theorem signalled_task_is_killed_again:
  "kills (final (run [Exit 1 0] example_viewer)) = [0, 2] \<and>
   isRunning (tasks (final (run [Exit 1 0] example_viewer)) ! 2) \<and>
   kills (final (run [Exit 1 0, Exit 0 0] example_viewer)) = [0, 2, 2] \<and>
   kills (killAllTasks (killAllTasks example_viewer)) = [0, 1, 2, 0, 1, 2]"
  by (simp add: dispatch_def hasHandle_def onExit_def pushLog_def updateLogBox_def
        setItemContent_def killAllTasks_def killPolicy_def kills_def Let_def
        example_tasks example_fields example_sidebar example_options_def)

text \<open>
  C3, as the program has it. The program does not capture a spawn failure: when
  \<open>pty.spawn\<close> throws for a task, the exception leaves \<open>startTasks\<close> and the
  constructor. No task is moved to the exited state: every task, the failing one
  included, is still marked running with an empty log and no exit code. When \<open>k\<close> is the
  first task whose spawn fails, the tasks before it have their process handle and the
  others have none.
\<close>

theorem spawn_failure_aborts_construction:
  assumes "k < length (commands opts)" and "spawn k = None"
  shows "\<exists>s'. newLogViewer spawn col opts = Inl (SpawnError, s') \<and>
           length (tasks s') = length (commands opts) \<and>
           (\<forall>i<length (commands opts).
               isRunning (tasks s' ! i) \<and> logs (tasks s' ! i) = [] \<and> exitCode (tasks s' ! i) = None) \<and>
           ((\<forall>i<k. spawn i \<noteq> None) \<longrightarrow>
              (\<forall>i<length (commands opts). process (tasks s' ! i) = (if i < k then spawn i else None)))"
proof (cases "\<forall>i<k. spawn i \<noteq> None")
  case True
  from newLogViewer_fails[of k opts spawn col] assms True show ?thesis by auto
next
  case False
  from first_failure[of spawn k] assms(2) obtain k0 where k0: "k0 \<le> k" "spawn k0 = None" "\<forall>i<k0. spawn i \<noteq> None"
    by blast
  with assms(1) have "k0 < length (commands opts)" by simp
  from newLogViewer_fails[of k0 opts spawn col] this k0(2,3) obtain s' where
    "newLogViewer spawn col opts = Inl (SpawnError, s')"
    "length (tasks s') = length (commands opts)"
    "\<forall>i<length (commands opts).
               isRunning (tasks s' ! i) \<and> logs (tasks s' ! i) = [] \<and> exitCode (tasks s' ! i) = None"
    by blast
  with False show ?thesis by blast
qed

theorem spawn_failure_aborts_construction_witness:
  "1 < length (commands example_options) \<and> spawn_fails_at 1 1 = None \<and>
   spawn_fails_at 1 0 \<noteq> None \<and>
   (\<exists>s'. newLogViewer (spawn_fails_at 1) True example_options = Inl (SpawnError, s') \<and>
         isRunning (tasks s' ! 1) \<and> logs (tasks s' ! 1) = [] \<and> exitCode (tasks s' ! 1) = None \<and>
         process (tasks s' ! 0) = Some 0 \<and> process (tasks s' ! 1) = None \<and> process (tasks s' ! 2) = None)"
proof -
  have len: "1 < length (commands example_options)" and f: "spawn_fails_at 1 1 = None"
    and p: "\<forall>i<1. spawn_fails_at 1 i \<noteq> None"
    and p0: "spawn_fails_at 1 0 \<noteq> None"
    and n: "length (commands example_options) = 3"
    by (simp_all add: example_options_def spawn_fails_at_def)
  from spawn_failure_aborts_construction[of 1 example_options "spawn_fails_at 1" True] len f p
  obtain s' where
    s': "newLogViewer (spawn_fails_at 1) True example_options = Inl (SpawnError, s')"
      "\<forall>i<length (commands example_options).
               isRunning (tasks s' ! i) \<and> logs (tasks s' ! i) = [] \<and> exitCode (tasks s' ! i) = None"
      "\<forall>i<length (commands example_options). process (tasks s' ! i) = (if i < 1 then spawn_fails_at 1 i else None)"
    by blast
  from s'(2) n have "isRunning (tasks s' ! 1) \<and> logs (tasks s' ! 1) = [] \<and> exitCode (tasks s' ! 1) = None"
    by simp
  moreover from s'(3) n have "process (tasks s' ! 0) = Some 0 \<and> process (tasks s' ! 1) = None \<and> process (tasks s' ! 2) = None"
    by (simp add: spawn_fails_at_def)
  ultimately show ?thesis using s'(1) len f p0 by blast
qed

text \<open>
  C3 as stated fails: with three commands and a spawn that throws for task 1, the
  constructor throws, and task 1 is still marked running with no exit code and an empty
  log.
\<close>

theorem spawn_failure_not_captured:
  "isl (newLogViewer (spawn_fails_at 1) True example_options) \<and>
   fst (projl (newLogViewer (spawn_fails_at 1) True example_options)) = SpawnError \<and>
   isRunning (tasks (final (newLogViewer (spawn_fails_at 1) True example_options)) ! 1) \<and>
   exitCode (tasks (final (newLogViewer (spawn_fails_at 1) True example_options)) ! 1) = None \<and>
   logs (tasks (final (newLogViewer (spawn_fails_at 1) True example_options)) ! 1) = []"
  by (simp add: newLogViewer_def initializeUI_def fields_def updateLogBox_def startTasks_def
        startTask_def spawn_fails_at_def example_options_def newTask_def Let_def)

text \<open>
  C4, as the program has it. The log box is repainted from the whole log of the selected
  task, read at that moment: after any run of events it holds the chunks of that log in
  arrival order, each unaltered, joined with one newline between consecutive chunks.
  The same holds right after a selection switch and right after a chunk arrives for the
  selected task: the new chunk follows the old content after one newline.
\<close>

theorem log_pane_shows_joined_log:
  assumes "wf s"
  shows "(list_all (selectable (length (tasks s))) evs \<longrightarrow>
            (\<exists>s'. run evs s = Inr s' \<and>
                  logBoxContent s' = join nl (logs (tasks s' ! nat (currentTaskIndex s'))))) \<and>
         (0 \<le> k \<and> k < int (length (tasks s)) \<longrightarrow>
            (\<exists>s'. handleTaskSelect s k = Inr s' \<and> logBoxContent s' = join nl (logs (tasks s ! nat k)))) \<and>
         (i < length (tasks s) \<and> currentTaskIndex s = int i \<longrightarrow>
            (\<exists>s'. onData i d s = Inr s' \<and>
                  logBoxContent s' = join nl (logs (tasks s ! i) @ [d]) \<and>
                  logBoxContent s' =
                    (if logs (tasks s ! i) = [] then d else logBoxContent s @ nl @ d)))"
proof -
  have 1: "list_all (selectable (length (tasks s))) evs \<longrightarrow>
            (\<exists>s'. run evs s = Inr s' \<and>
                  logBoxContent s' = join nl (logs (tasks s' ! nat (currentTaskIndex s'))))"
    using run_wf[OF assms, of evs] by (auto simp: wf_def)
  have 2: "0 \<le> k \<and> k < int (length (tasks s)) \<longrightarrow>
            (\<exists>s'. handleTaskSelect s k = Inr s' \<and> logBoxContent s' = join nl (logs (tasks s ! nat k)))"
    by (simp add: handleTaskSelect_def updateLogBox_def)
  have 3: "i < length (tasks s) \<and> currentTaskIndex s = int i \<longrightarrow>
            (\<exists>s'. onData i d s = Inr s' \<and>
                  logBoxContent s' = join nl (logs (tasks s ! i) @ [d]) \<and>
                  logBoxContent s' =
                    (if logs (tasks s ! i) = [] then d else logBoxContent s @ nl @ d))"
    using assms by (auto simp: onData_def pushLog_def updateLogBox_def wf_def join_snoc)
  from 1 2 3 show ?thesis by blast
qed

theorem log_pane_shows_joined_log_witness:
  "wf example_viewer \<and>
   list_all (selectable (length (tasks example_viewer))) [Data 1 ''x'', Select 1, Data 1 ''y''] \<and>
   (\<exists>s'. run [Data 1 ''x'', Select 1, Data 1 ''y''] example_viewer = Inr s' \<and>
         logBoxContent s' = join nl (logs (tasks s' ! nat (currentTaskIndex s')))) \<and>
   (0::int) \<le> 2 \<and> 2 < int (length (tasks example_viewer)) \<and>
   (\<exists>s'. handleTaskSelect example_viewer 2 = Inr s' \<and> logBoxContent s' = []) \<and>
   0 < length (tasks example_viewer) \<and> currentTaskIndex example_viewer = int 0 \<and>
   (\<exists>s'. onData 0 ''x'' example_viewer = Inr s' \<and> logBoxContent s' = ''x'')"
proof -
  have sel: "list_all (selectable (length (tasks example_viewer))) [Data 1 ''x'', Select 1, Data 1 ''y'']"
    and len: "length (tasks example_viewer) = 3"
    by (simp_all add: example_tasks)
  note t = log_pane_shows_joined_log[OF example_wf,
      of "[Data 1 ''x'', Select 1, Data 1 ''y'']" 2 0 "''x''"]
  from t sel have a: "\<exists>s'. run [Data 1 ''x'', Select 1, Data 1 ''y''] example_viewer = Inr s' \<and>
         logBoxContent s' = join nl (logs (tasks s' ! nat (currentTaskIndex s')))"
    by blast
  from t len have b: "\<exists>s'. handleTaskSelect example_viewer 2 = Inr s' \<and> logBoxContent s' = []"
    by (simp add: example_tasks)
  from t len have c: "\<exists>s'. onData 0 ''x'' example_viewer = Inr s' \<and> logBoxContent s' = ''x''"
    by (simp add: example_tasks example_fields)
  from a b c sel len example_wf show ?thesis
    by (simp add: example_fields)
qed

text \<open>
  C4 as stated fails: two chunks \<open>a\<close> and \<open>b\<close> of the selected task are shown with a
  newline between them, which is not their concatenation.
\<close>

theorem log_pane_inserts_newlines:
  "logs (tasks (final (run [Data 0 ''a'', Data 0 ''b''] example_viewer)) ! 0) = [''a'', ''b''] \<and>
   logBoxContent (final (run [Data 0 ''a'', Data 0 ''b''] example_viewer)) = ''a'' @ nl @ ''b'' \<and>
   logBoxContent (final (run [Data 0 ''a'', Data 0 ''b''] example_viewer)) \<noteq> concat [''a'', ''b'']"
  by (simp add: dispatch_def hasHandle_def onData_def pushLog_def updateLogBox_def
        example_tasks example_fields nl_def)

text \<open>
  C5, as the program has it. \<open>handleTaskSelect\<close> stores the index it is given without
  clamping. An index that points at a task is stored and the log box shows that task's
  log; any other index is stored as well and the repaint then throws. The selection
  stays inside the registry along every run whose selection events carry indices of
  tasks.
\<close>

theorem selection_stored_as_given:
  "(0 \<le> k \<and> k < int (length (tasks s)) \<longrightarrow>
      handleTaskSelect s k =
        Inr (s\<lparr>currentTaskIndex := k, logBoxContent := join nl (logs (tasks s ! nat k))\<rparr>)) \<and>
   (\<not> (0 \<le> k \<and> k < int (length (tasks s))) \<longrightarrow>
      handleTaskSelect s k = Inl (TypeError, s\<lparr>currentTaskIndex := k\<rparr>)) \<and>
   (wf s \<and> list_all (selectable (length (tasks s))) evs \<longrightarrow>
      (\<exists>s'. run evs s = Inr s' \<and> 0 \<le> currentTaskIndex s' \<and>
            currentTaskIndex s' < int (length (tasks s))))"
proof -
  have "wf s \<and> list_all (selectable (length (tasks s))) evs \<longrightarrow>
      (\<exists>s'. run evs s = Inr s' \<and> 0 \<le> currentTaskIndex s' \<and>
            currentTaskIndex s' < int (length (tasks s)))"
    using run_wf[of s evs] by (auto simp: wf_def)
  then show ?thesis
    by (simp add: handleTaskSelect_def updateLogBox_def)
qed

theorem selection_stored_as_given_witness:
  "handleTaskSelect example_viewer 2 =
     Inr (example_viewer\<lparr>currentTaskIndex := 2,
            logBoxContent := join nl (logs (tasks example_viewer ! nat 2))\<rparr>) \<and>
   handleTaskSelect example_viewer 3 = Inl (TypeError, example_viewer\<lparr>currentTaskIndex := 3\<rparr>) \<and>
   wf example_viewer \<and> list_all (selectable (length (tasks example_viewer))) [Select 1, KeyDown 2] \<and>
   (\<exists>s'. run [Select 1, KeyDown 2] example_viewer = Inr s' \<and> 0 \<le> currentTaskIndex s' \<and>
         currentTaskIndex s' < int (length (tasks example_viewer)))"
proof -
  have sel: "list_all (selectable (length (tasks example_viewer))) [Select 1, KeyDown 2]"
    and len: "length (tasks example_viewer) = 3"
    by (simp_all add: example_tasks)
  from selection_stored_as_given[of 2 example_viewer "[Select 1, KeyDown 2]"] len sel example_wf
  have a: "handleTaskSelect example_viewer 2 =
     Inr (example_viewer\<lparr>currentTaskIndex := 2,
            logBoxContent := join nl (logs (tasks example_viewer ! nat 2))\<rparr>) \<and>
     (\<exists>s'. run [Select 1, KeyDown 2] example_viewer = Inr s' \<and> 0 \<le> currentTaskIndex s' \<and>
         currentTaskIndex s' < int (length (tasks example_viewer)))"
    by simp
  from selection_stored_as_given[of 3 example_viewer "[]"] len
  have b: "handleTaskSelect example_viewer 3 = Inl (TypeError, example_viewer\<lparr>currentTaskIndex := 3\<rparr>)"
    by simp
  from a b sel example_wf show ?thesis by blast
qed

text \<open>
  C5 as stated fails: with three tasks, selecting index 5 (or \<open>-1\<close>) leaves that index as
  the stored selection, and the call throws.
\<close>

theorem selection_not_clamped:
  "length (tasks example_viewer) = 3 \<and>
   handleTaskSelect example_viewer 5 = Inl (TypeError, example_viewer\<lparr>currentTaskIndex := 5\<rparr>) \<and>
   currentTaskIndex (final (handleTaskSelect example_viewer 5)) = 5 \<and>
   currentTaskIndex (final (handleTaskSelect example_viewer (- 1))) = - 1"
  by (simp add: handleTaskSelect_def updateLogBox_def example_tasks)

text \<open>
  C6, as the program has it. The exit callback with code \<open>c\<close> marks the task as not
  running, stores \<open>c\<close>, appends exactly one entry to its log, the marker containing
  the words \<open>Process exited with code c\<close>, and leaves the other tasks' records alone. A task that
  is not running stays so under every run of events. Its log is unchanged by every
  event that is not a data or exit event of its own handle; those callbacks append
  without looking at the state.
\<close>

theorem exit_marks_task_exited:
  assumes "wf s" and "i < length (tasks s)"
  shows "(\<exists>s'. onExit i c s = Inr s' \<and> \<not> isRunning (tasks s' ! i) \<and> exitCode (tasks s' ! i) = Some c \<and>
              logs (tasks s' ! i) = logs (tasks s ! i) @ [exitMarker (colour s) c] \<and>
              (\<exists>pre post. exitMarker (colour s) c =
                  pre @ ''Process exited with code '' @ string_of_int c @ post) \<and>
              (\<forall>j<length (tasks s). j \<noteq> i \<longrightarrow> tasks s' ! j = tasks s ! j)) \<and>
         (\<not> isRunning (tasks s ! i) \<longrightarrow>
            (\<forall>evs. \<not> isRunning (tasks (final (run evs s)) ! i)) \<and>
            (\<forall>evs. list_all (\<lambda>e. \<not> touches i e) evs \<longrightarrow>
               logs (tasks (final (run evs s)) ! i) = logs (tasks s ! i)))"
proof -
  let ?s' = "if killPolicy (options s) c then killAllTasks (exited i c s) else exited i c s"
  have "tasks ?s' = (tasks s)[i := exitTask (colour s) c (tasks s ! i)]"
    by (simp add: killAllTasks_def exited_def)
  with assms(2) have "\<not> isRunning (tasks ?s' ! i) \<and> exitCode (tasks ?s' ! i) = Some c \<and>
              logs (tasks ?s' ! i) = logs (tasks s ! i) @ [exitMarker (colour s) c] \<and>
              (\<forall>j<length (tasks s). j \<noteq> i \<longrightarrow> tasks ?s' ! j = tasks s ! j)"
    by (simp add: exitTask_def)
  with onExit_wf[OF assms, of c] exitMarker_contains[of "colour s" c]
  have a: "\<exists>s'. onExit i c s = Inr s' \<and> \<not> isRunning (tasks s' ! i) \<and> exitCode (tasks s' ! i) = Some c \<and>
              logs (tasks s' ! i) = logs (tasks s ! i) @ [exitMarker (colour s) c] \<and>
              (\<exists>pre post. exitMarker (colour s) c =
                  pre @ ''Process exited with code '' @ string_of_int c @ post) \<and>
              (\<forall>j<length (tasks s). j \<noteq> i \<longrightarrow> tasks s' ! j = tasks s ! j)"
    by blast
  show ?thesis
    using a run_not_running[OF assms(2)] run_logs_frame[of i _ s] by blast
qed

theorem exit_marks_task_exited_witness:
  "wf example_viewer \<and> 1 < length (tasks example_viewer) \<and>
   (\<exists>s'. onExit 1 3 example_viewer = Inr s' \<and> \<not> isRunning (tasks s' ! 1) \<and>
         exitCode (tasks s' ! 1) = Some 3 \<and> logs (tasks s' ! 1) = [exitMarker True 3] \<and>
         tasks s' ! 0 = tasks example_viewer ! 0) \<and>
   wf example_exited \<and> 1 < length (tasks example_exited) \<and> \<not> isRunning (tasks example_exited ! 1) \<and>
   \<not> isRunning (tasks (final (run [Tick 1, Select 1, Exit 0 0] example_exited)) ! 1) \<and>
   list_all (\<lambda>e. \<not> touches 1 e) [Tick 1, Select 1, Exit 0 0] \<and>
   logs (tasks (final (run [Tick 1, Select 1, Exit 0 0] example_exited)) ! 1) = logs (tasks example_exited ! 1)"
proof -
  have len: "1 < length (tasks example_viewer)"
    by (simp add: example_tasks)
  have len': "1 < length (tasks example_exited)"
    using example_exited_wf by simp
  have tch: "list_all (\<lambda>e. \<not> touches 1 e) [Tick 1, Select 1, Exit 0 0]"
    by simp
  from exit_marks_task_exited[OF example_wf len, of 3]
  have a: "\<exists>s'. onExit 1 3 example_viewer = Inr s' \<and> \<not> isRunning (tasks s' ! 1) \<and>
         exitCode (tasks s' ! 1) = Some 3 \<and> logs (tasks s' ! 1) = [exitMarker True 3] \<and>
         tasks s' ! 0 = tasks example_viewer ! 0"
    by (auto simp: example_tasks example_fields)
  from exit_marks_task_exited[OF conjunct1[OF example_exited_wf] len', of 0] example_exited_task tch
  have b: "\<not> isRunning (tasks (final (run [Tick 1, Select 1, Exit 0 0] example_exited)) ! 1) \<and>
     logs (tasks (final (run [Tick 1, Select 1, Exit 0 0] example_exited)) ! 1) = logs (tasks example_exited ! 1)"
    by blast
  from a b len len' tch example_wf example_exited_wf example_exited_task show ?thesis
    by blast
qed

text \<open>
  C6 as stated fails in its last part: a data event of a task that has already exited is
  appended to its log after the exit marker.
\<close>

theorem late_data_is_appended:
  "\<not> isRunning (tasks example_exited ! 1) \<and>
   logs (tasks example_exited ! 1) = [exitMarker True 0] \<and>
   logs (tasks (final (run [Data 1 ''late''] example_exited)) ! 1) = [exitMarker True 0, ''late'']"
  by (simp add: example_exited_eq killAllTasks_def exited_def exitTask_def example_tasks
        example_fields dispatch_def hasHandle_def onData_def pushLog_def updateLogBox_def)

text \<open>
  C7. Along any run of events (without quit, selections pointing at tasks) the log of a
  task grows by exactly the entries its own handle delivers, in the order of arrival:
  each data chunk once, and the marker of its exit event. In particular a sequence of
  chunks delivered to a task is appended to its log as it is.
\<close>

theorem log_keeps_arrival_order:
  assumes "wf s" and "exitStatus s = None" and "i < length (tasks s)"
  shows "(list_all (selectable (length (tasks s))) evs \<and> Quit \<notin> set evs \<longrightarrow>
            (\<exists>s'. run evs s = Inr s' \<and>
                  logs (tasks s' ! i) = logs (tasks s ! i) @ delivered (colour s) i evs)) \<and>
         (\<exists>s'. run (map (Data i) ds) s = Inr s' \<and> logs (tasks s' ! i) = logs (tasks s ! i) @ ds)"
proof -
  have "list_all (selectable (length (tasks s))) (map (Data i) ds)" "Quit \<notin> set (map (Data i) ds)"
    by (auto simp: list_all_iff)
  from run_delivers[OF assms this] have
    "\<exists>s'. run (map (Data i) ds) s = Inr s' \<and> logs (tasks s' ! i) = logs (tasks s ! i) @ ds"
    by (simp add: delivered_Data)
  then show ?thesis
    using run_delivers[OF assms, of evs] by blast
qed

theorem log_keeps_arrival_order_witness:
  "wf example_viewer \<and> exitStatus example_viewer = None \<and> 1 < length (tasks example_viewer) \<and>
   list_all (selectable (length (tasks example_viewer)))
     [Data 1 ''x'', Data 0 ''u'', Tick 1, Data 1 ''y'', Select 2, Data 1 ''x''] \<and>
   Quit \<notin> set [Data 1 ''x'', Data 0 ''u'', Tick 1, Data 1 ''y'', Select 2, Data 1 ''x''] \<and>
   (\<exists>s'. run [Data 1 ''x'', Data 0 ''u'', Tick 1, Data 1 ''y'', Select 2, Data 1 ''x''] example_viewer = Inr s' \<and>
         logs (tasks s' ! 1) = [''x'', ''y'', ''x'']) \<and>
   (\<exists>s'. run (map (Data 1) [''p'', ''q'']) example_viewer = Inr s' \<and> logs (tasks s' ! 1) = [''p'', ''q''])"
proof -
  have len: "1 < length (tasks example_viewer)"
    and sel: "list_all (selectable (length (tasks example_viewer)))
     [Data 1 ''x'', Data 0 ''u'', Tick 1, Data 1 ''y'', Select 2, Data 1 ''x'']"
    and nq: "Quit \<notin> set [Data 1 ''x'', Data 0 ''u'', Tick 1, Data 1 ''y'', Select 2, Data 1 ''x'']"
    and st: "exitStatus example_viewer = None"
    by (simp_all add: example_tasks example_fields)
  note t = log_keeps_arrival_order[OF example_wf st len,
      of "[Data 1 ''x'', Data 0 ''u'', Tick 1, Data 1 ''y'', Select 2, Data 1 ''x'']" "[''p'', ''q'']"]
  from t sel nq have "\<exists>s'. run [Data 1 ''x'', Data 0 ''u'', Tick 1, Data 1 ''y'', Select 2, Data 1 ''x''] example_viewer = Inr s' \<and>
         logs (tasks s' ! 1) = logs (tasks example_viewer ! 1) @
            delivered (colour example_viewer) 1 [Data 1 ''x'', Data 0 ''u'', Tick 1, Data 1 ''y'', Select 2, Data 1 ''x'']"
    by blast
  then have a: "\<exists>s'. run [Data 1 ''x'', Data 0 ''u'', Tick 1, Data 1 ''y'', Select 2, Data 1 ''x''] example_viewer = Inr s' \<and>
         logs (tasks s' ! 1) = [''x'', ''y'', ''x'']"
    by (simp add: example_tasks)
  from t have b: "\<exists>s'. run (map (Data 1) [''p'', ''q'']) example_viewer = Inr s' \<and> logs (tasks s' ! 1) = [''p'', ''q'']"
    by (simp add: example_tasks)
  from a b len sel nq st example_wf show ?thesis by blast
qed

text \<open>
  C8. There are 10 spinner frames. A tick for a running task moves that task's frame
  index to the next one modulo 10 and leaves the other tasks' indices alone; a tick for
  a task that is no longer running changes nothing, and no later event of any kind
  changes the frame index of such a task.
\<close>

theorem spinner_tick:
  assumes "wf s" and "i < length (tasks s)"
  shows "length spinnerFrames = 10 \<and>
         (isRunning (tasks s ! i) \<longrightarrow>
            (\<exists>s'. onTick i s = Inr s' \<and> spinnerIndex s' i = (spinnerIndex s i + 1) mod 10 \<and>
                  (\<forall>j. j \<noteq> i \<longrightarrow> spinnerIndex s' j = spinnerIndex s j))) \<and>
         (\<not> isRunning (tasks s ! i) \<longrightarrow>
            onTick i s = Inr s \<and> (\<forall>evs. spinnerIndex (final (run evs s)) i = spinnerIndex s i))"
proof -
  have "i < length (sidebarItems s)"
    using assms by (simp add: wf_def)
  then have "isRunning (tasks s ! i) \<longrightarrow>
            (\<exists>s'. onTick i s = Inr s' \<and> spinnerIndex s' i = (spinnerIndex s i + 1) mod 10 \<and>
                  (\<forall>j. j \<noteq> i \<longrightarrow> spinnerIndex s' j = spinnerIndex s j))"
    by (simp add: onTick_def setItemContent_def length_spinnerFrames)
  moreover have "\<not> isRunning (tasks s ! i) \<longrightarrow> onTick i s = Inr s"
    by (simp add: onTick_def)
  ultimately show ?thesis
    using run_spinner[OF assms(2)] length_spinnerFrames by blast
qed

theorem spinner_tick_witness:
  "wf example_viewer \<and> 1 < length (tasks example_viewer) \<and> isRunning (tasks example_viewer ! 1) \<and>
   (\<exists>s'. onTick 1 example_viewer = Inr s' \<and> spinnerIndex s' 1 = 1 \<and> spinnerIndex s' 0 = 0) \<and>
   wf example_exited \<and> 1 < length (tasks example_exited) \<and> \<not> isRunning (tasks example_exited ! 1) \<and>
   onTick 1 example_exited = Inr example_exited \<and>
   spinnerIndex (final (run [Tick 1, Tick 1] example_exited)) 1 = spinnerIndex example_exited 1"
proof -
  have len: "1 < length (tasks example_viewer)" and r: "isRunning (tasks example_viewer ! 1)"
    by (simp_all add: example_tasks)
  have len': "1 < length (tasks example_exited)"
    using example_exited_wf by simp
  from spinner_tick[OF example_wf len] r
  have a: "\<exists>s'. onTick 1 example_viewer = Inr s' \<and> spinnerIndex s' 1 = 1 \<and> spinnerIndex s' 0 = 0"
    by (auto simp: example_spinner)
  from spinner_tick[OF conjunct1[OF example_exited_wf] len'] example_exited_task
  have b: "onTick 1 example_exited = Inr example_exited \<and>
     spinnerIndex (final (run [Tick 1, Tick 1] example_exited)) 1 = spinnerIndex example_exited 1"
    by blast
  from a b len len' r example_exited_task example_wf example_exited_wf show ?thesis
    by blast
qed

text \<open>
  C9. The quit handler clears every recorded spinner timer first, then sends a kill to
  every task that is running at that moment, and calls \<open>process.exit(0)\<close> last. No timer
  remains scheduled, the exit status is 0 whatever the tasks' exit codes, and no
  callback runs afterwards.
\<close>

theorem shutdown_sequence:
  assumes "wf s"
  shows "handle Quit s = Inr (quit s) \<and>
         trace (quit s) =
           trace s @ map ClearInterval (spinnerIntervals s) @ map Kill (running s) @ [ProcessExit 0] \<and>
         activeTimers (quit s) = [] \<and>
         exitStatus (quit s) = Some 0 \<and>
         (\<forall>evs. run evs (quit s) = Inr (quit s))"
proof -
  have t: "trace (quit s) =
           trace s @ map ClearInterval (spinnerIntervals s) @ map Kill (running s) @ [ProcessExit 0]"
    using running_started[OF assms] by (simp add: quit_def cleanup_def killAllTasks_def Let_def)
  have "\<forall>t \<in> set (activeTimers s). t \<in> set (spinnerIntervals s)"
    using assms by (simp add: wf_def list_all_iff)
  then have a: "activeTimers (quit s) = []"
    by (simp add: quit_def cleanup_def killAllTasks_def Let_def filter_empty_conv)
  have e: "exitStatus (quit s) = Some 0"
    by (simp add: quit_def Let_def)
  then have "\<forall>evs. run evs (quit s) = Inr (quit s)"
    by (simp add: run_exited)
  with t a e show ?thesis by simp
qed

theorem shutdown_sequence_witness:
  "wf example_viewer \<and>
   handle Quit example_viewer = Inr (quit example_viewer) \<and>
   trace (quit example_viewer) =
     [PtyWrite 0 (''a'' @ cr), PtyWrite 1 (''b'' @ cr), PtyWrite 2 (''c'' @ cr),
      ClearInterval 0, ClearInterval 1, ClearInterval 2, Kill 0, Kill 1, Kill 2, ProcessExit 0] \<and>
   activeTimers (quit example_viewer) = [] \<and>
   exitStatus (quit example_viewer) = Some 0 \<and>
   run [Tick 0, Data 1 ''x''] (quit example_viewer) = Inr (quit example_viewer)"
  using shutdown_sequence[OF example_wf] example_wf
  by (simp add: example_fields example_running)

text \<open>
  C10. With at least one command, the first render in \<open>initializeUI\<close> has selection 0
  and shows the empty log of task 0; when every spawn succeeds the constructor returns
  with the selection still 0 and the log box still empty.
\<close>

theorem initial_selection:
  assumes "commands opts \<noteq> []"
  shows "(\<exists>s1. initializeUI (fields col opts) = Inr s1 \<and> currentTaskIndex s1 = 0 \<and>
              logs (tasks s1 ! 0) = [] \<and> logBoxContent s1 = []) \<and>
         ((\<forall>i<length (commands opts). spawn i \<noteq> None) \<longrightarrow>
            (\<exists>s. newLogViewer spawn col opts = Inr s \<and> currentTaskIndex s = 0 \<and>
                 logs (tasks s ! 0) = [] \<and> logBoxContent s = []))"
proof -
  from assms have pos: "0 < length (commands opts)" by simp
  have "logs (tasks (fields col opts) ! 0) = []"
    using pos by (simp add: fields_tasks newTask_def)
  then have a: "\<exists>s1. initializeUI (fields col opts) = Inr s1 \<and> currentTaskIndex s1 = 0 \<and>
              logs (tasks s1 ! 0) = [] \<and> logBoxContent s1 = []"
    by (simp add: initializeUI_fields[OF assms]) (simp add: fields_def)
  have "(\<forall>i<length (commands opts). spawn i \<noteq> None) \<longrightarrow>
            (\<exists>s. newLogViewer spawn col opts = Inr s \<and> currentTaskIndex s = 0 \<and>
                 logs (tasks s ! 0) = [] \<and> logBoxContent s = [])"
    using newLogViewer_ok[OF assms, of spawn col] pos by auto
  with a show ?thesis by blast
qed

theorem initial_selection_witness:
  "commands example_options \<noteq> [] \<and>
   (\<exists>s1. initializeUI (fields True example_options) = Inr s1 \<and> currentTaskIndex s1 = 0 \<and>
         logs (tasks s1 ! 0) = [] \<and> logBoxContent s1 = []) \<and>
   length (commands example_options) = 3 \<and>
   spawn_ok 0 \<noteq> None \<and> spawn_ok 1 \<noteq> None \<and> spawn_ok 2 \<noteq> None \<and>
   (\<exists>s. newLogViewer spawn_ok True example_options = Inr s \<and> currentTaskIndex s = 0 \<and>
        logs (tasks s ! 0) = [] \<and> logBoxContent s = [])"
proof -
  have ne: "commands example_options \<noteq> []"
    by (simp add: example_options_def)
  have ok: "\<forall>i<length (commands example_options). spawn_ok i \<noteq> None"
    and each: "length (commands example_options) = 3"
      "spawn_ok 0 \<noteq> None" "spawn_ok 1 \<noteq> None" "spawn_ok 2 \<noteq> None"
    by (simp_all add: spawn_ok_def example_options_def)
  from initial_selection[OF ne, of True spawn_ok] ok
  have "(\<exists>s1. initializeUI (fields True example_options) = Inr s1 \<and> currentTaskIndex s1 = 0 \<and>
         logs (tasks s1 ! 0) = [] \<and> logBoxContent s1 = []) \<and>
     (\<exists>s. newLogViewer spawn_ok True example_options = Inr s \<and> currentTaskIndex s = 0 \<and>
        logs (tasks s ! 0) = [] \<and> logBoxContent s = [])"
    by blast
  with ne each show ?thesis
    by blast
qed

end
